theory Spec2Isabelle
  imports Complex_Main "HOL-Library.Multiset" "HOL-Library.AList"
begin

section \<open>JavaScript strings and values used by the aggregator\<close>

text \<open>
  Strings are lists of characters; the model reads each \<^typ>\<open>char\<close> as one code unit of
  the JavaScript string, which is exact for ASCII text. An optional property
  (\<^verbatim>\<open>htmlUrl?: string\<close>, an XML attribute that may be missing) is a \<^typ>\<open>string option\<close>,
  with \<^term>\<open>None\<close> for \<^verbatim>\<open>undefined\<close>.
\<close>

definition code_unit :: "char \<Rightarrow> nat" where
  "code_unit c = of_char c"

definition is_upper :: "char \<Rightarrow> bool" where
  "is_upper c = (65 \<le> code_unit c \<and> code_unit c \<le> 90)"

definition is_lower :: "char \<Rightarrow> bool" where
  "is_lower c = (97 \<le> code_unit c \<and> code_unit c \<le> 122)"

definition is_digit :: "char \<Rightarrow> bool" where
  "is_digit c = (48 \<le> code_unit c \<and> code_unit c \<le> 57)"

text \<open>The character class \<^verbatim>\<open>[a-zA-Z0-9]\<close>.\<close>

definition is_alnum :: "char \<Rightarrow> bool" where
  "is_alnum c = (is_lower c \<or> is_upper c \<or> is_digit c)"

definition lower_char :: "char \<Rightarrow> char" where
  "lower_char c = (if is_upper c then char_of (code_unit c + 32) else c)"

text \<open>
  \<^verbatim>\<open>s.toLowerCase()\<close>. JavaScript lower-cases every cased letter; the model does the
  letters A to Z, which is exact on ASCII strings.
\<close>

definition toLowerCase :: "string \<Rightarrow> string" where
  "toLowerCase s = map lower_char s"

text \<open>\<^verbatim>\<open>s.startsWith(p)\<close>.\<close>

definition startsWith :: "string \<Rightarrow> string \<Rightarrow> bool" where
  "startsWith s p = (take (length p) s = p)"

text \<open>\<^verbatim>\<open>s.includes(t)\<close>: \<^verbatim>\<open>t\<close> occurs in \<^verbatim>\<open>s\<close> as a contiguous substring.\<close>

fun str_includes :: "string \<Rightarrow> string \<Rightarrow> bool" where
  "str_includes [] t = (t = [])"
| "str_includes (c # cs) t = (startsWith (c # cs) t \<or> str_includes cs t)"

text \<open>Truthiness of an optional string: \<^verbatim>\<open>undefined\<close> and \<^verbatim>\<open>''\<close> are falsy.\<close>

definition truthy :: "string option \<Rightarrow> bool" where
  "truthy v = (case v of None \<Rightarrow> False | Some s \<Rightarrow> s \<noteq> [])"

text \<open>\<^verbatim>\<open>a || b\<close> on optional strings, and \<^verbatim>\<open>a || d\<close> with a string default.\<close>

definition js_or :: "string option \<Rightarrow> string option \<Rightarrow> string option" where
  "js_or a b = (if truthy a then a else b)"

definition js_or_str :: "string option \<Rightarrow> string \<Rightarrow> string" where
  "js_or_str a d = (case a of None \<Rightarrow> d | Some s \<Rightarrow> if s \<noteq> [] then s else d)"

text \<open>
  \<^verbatim>\<open>s.replace(pat, rep)\<close> with a string pattern: only the first occurrence of
  \<^verbatim>\<open>pat\<close>, wherever it is, is replaced.
\<close>

fun replace_first :: "string \<Rightarrow> string \<Rightarrow> string \<Rightarrow> string" where
  "replace_first pat rep [] = (if pat = [] then rep else [])"
| "replace_first pat rep (c # cs) =
     (if startsWith (c # cs) pat then rep @ drop (length pat) (c # cs)
      else c # replace_first pat rep cs)"

text \<open>\<^verbatim>\<open>s.replace(/\./g, '-')\<close>.\<close>

definition dots_to_dashes :: "string \<Rightarrow> string" where
  "dots_to_dashes s = map (\<lambda>c. if c = CHR ''.'' then CHR ''-'' else c) s"

text \<open>\<^verbatim>\<open>s.replace(/[^a-zA-Z0-9]/g, '-')\<close>.\<close>

definition non_alnum_to_dashes :: "string \<Rightarrow> string" where
  "non_alnum_to_dashes s = map (\<lambda>c. if is_alnum c then c else CHR ''-'') s"

text \<open>
  \<^verbatim>\<open>s.replace(/https?:\/\//g, '')\<close>: the scan goes left to right, removes every match
  of \<^verbatim>\<open>http://\<close> or \<^verbatim>\<open>https://\<close> and resumes after it; what has been emitted is
  not scanned again.
\<close>

fun strip_schemes :: "string \<Rightarrow> string" where
  "strip_schemes [] = []"
| "strip_schemes (c # cs) =
     (if startsWith (c # cs) ''http://'' then strip_schemes (drop 6 cs)
      else if startsWith (c # cs) ''https://'' then strip_schemes (drop 7 cs)
      else c # strip_schemes cs)"


section \<open>The identifier deriver\<close>

text \<open>
  \<^verbatim>\<open>new URL(url).hostname\<close> belongs to the platform, not to the repository: it is a
  parameter \<open>H\<close>, with \<^term>\<open>None\<close> where the constructor throws.
\<close>

type_synonym url_hostname = "string \<Rightarrow> string option"

definition createFeedId :: "url_hostname \<Rightarrow> string \<Rightarrow> string" where
  "createFeedId H url =
     (case H url of
        Some hostname \<Rightarrow> dots_to_dashes (replace_first ''www.'' [] hostname)
      | None \<Rightarrow> toLowerCase (non_alnum_to_dashes (strip_schemes url)))"

text \<open>
  The derivation as the specification words it: a leading \<^verbatim>\<open>www.\<close> label is stripped from
  the hostname; in the fallback a leading scheme is stripped.
\<close>

definition strip_leading :: "string \<Rightarrow> string \<Rightarrow> string" where
  "strip_leading p s = (if startsWith s p then drop (length p) s else s)"

definition deriveId_spec :: "url_hostname \<Rightarrow> string \<Rightarrow> string" where
  "deriveId_spec H url =
     (case H url of
        Some hostname \<Rightarrow> dots_to_dashes (strip_leading ''www.'' hostname)
      | None \<Rightarrow>
          toLowerCase (non_alnum_to_dashes
            (strip_leading ''https://'' (strip_leading ''http://'' url))))"


section \<open>The command interpreter's item limit\<close>

text \<open>
  \<^verbatim>\<open>param.match(/--(\d+)/)\<close>: the first position where \<^verbatim>\<open>--\<close> is followed by a digit;
  the capture group is the longest run of digits there. \<^term>\<open>None\<close> is \<^verbatim>\<open>null\<close>.
\<close>

definition dashes_digit_here :: "string \<Rightarrow> bool" where
  "dashes_digit_here s =
     (startsWith s ''--'' \<and> (case drop 2 s of [] \<Rightarrow> False | d # _ \<Rightarrow> is_digit d))"

fun match_dashes_digits :: "string \<Rightarrow> string option" where
  "match_dashes_digits [] = None"
| "match_dashes_digits (c # cs) =
     (if dashes_digit_here (c # cs) then Some (takeWhile is_digit (drop 2 (c # cs)))
      else match_dashes_digits cs)"

definition digit_value :: "char \<Rightarrow> nat" where
  "digit_value c = code_unit c - 48"

text \<open>
  \<^verbatim>\<open>parseInt(ds, 10)\<close> on a string of digits. JavaScript rounds a value above \<open>2^53\<close>
  to a double (or to \<^verbatim>\<open>Infinity\<close>); every such value is far above 50, and the only use
  of the result is the clamp below, so the exact natural number gives the same limit.
\<close>

definition parseInt10 :: "string \<Rightarrow> nat" where
  "parseInt10 ds = foldl (\<lambda>n c. 10 * n + digit_value c) 0 ds"

definition extract_limit :: "string \<Rightarrow> nat" where
  "extract_limit param =
     (if startsWith param ''--'' then
        (case match_dashes_digits param of
           Some ds \<Rightarrow> min (max (parseInt10 ds) 1) 50
         | None \<Rightarrow> 10)
      else 10)"

text \<open>
  The limit as the specification words it: the parameter is \<^verbatim>\<open>--\<close> followed by digits
  and nothing else, or the default applies.
\<close>

definition is_dashes_digits :: "string \<Rightarrow> bool" where
  "is_dashes_digits param =
     (startsWith param ''--'' \<and> drop 2 param \<noteq> [] \<and> list_all is_digit (drop 2 param))"

definition limit_spec :: "string \<Rightarrow> nat" where
  "limit_spec param =
     (if is_dashes_digits param then min (max (parseInt10 (drop 2 param)) 1) 50 else 10)"


section \<open>\<^verbatim>\<open>Array.prototype.sort\<close>\<close>

text \<open>
  A comparator returns a number; \<^term>\<open>None\<close> stands for \<^verbatim>\<open>NaN\<close>, which the sort reads as
  \<open>+0\<close>. The sort is stable: with a consistent comparator every stable sort returns the
  list that the insertion below returns. With an inconsistent comparator ECMAScript
  leaves the order to the implementation; the model then returns what this insertion
  returns, which need not be what an engine returns on every input.
\<close>

definition sort_order :: "('a \<Rightarrow> 'a \<Rightarrow> int option) \<Rightarrow> 'a \<Rightarrow> 'a \<Rightarrow> int" where
  "sort_order cmp a b = (case cmp a b of None \<Rightarrow> 0 | Some v \<Rightarrow> v)"

fun insert_by :: "('a \<Rightarrow> 'a \<Rightarrow> int option) \<Rightarrow> 'a \<Rightarrow> 'a list \<Rightarrow> 'a list" where
  "insert_by cmp x [] = [x]"
| "insert_by cmp x (y # ys) =
     (if sort_order cmp x y \<le> 0 then x # y # ys else y # insert_by cmp x ys)"

fun array_sort :: "('a \<Rightarrow> 'a \<Rightarrow> int option) \<Rightarrow> 'a list \<Rightarrow> 'a list" where
  "array_sort cmp [] = []"
| "array_sort cmp (x # xs) = insert_by cmp x (array_sort cmp xs)"

text \<open>The order of \<^verbatim>\<open>sort()\<close> without a comparator: strings compared by code units.\<close>

fun str_less :: "string \<Rightarrow> string \<Rightarrow> bool" where
  "str_less [] [] = False"
| "str_less [] (y # ys) = True"
| "str_less (x # xs) [] = False"
| "str_less (x # xs) (y # ys) =
     (code_unit x < code_unit y \<or> (code_unit x = code_unit y \<and> str_less xs ys))"

definition default_compare :: "string \<Rightarrow> string \<Rightarrow> int option" where
  "default_compare a b = (if str_less a b then Some (- 1) else if str_less b a then Some 1 else Some 0)"


section \<open>The registry and its loaders\<close>

record Feed =
  title :: string
  url :: string
  htmlUrl :: "string option"
  category :: "string option"

text \<open>
  \<^verbatim>\<open>Map<string, Feed>\<close>: a JavaScript \<^verbatim>\<open>Map\<close> iterates in insertion order, and
  \<^verbatim>\<open>set\<close> on a key that is present replaces the value where it stands. That is
  \<^const>\<open>AList.update\<close> on an association list.
\<close>

type_synonym registry = "(string \<times> Feed) list"

definition feeds_set :: "string \<Rightarrow> Feed \<Rightarrow> registry \<Rightarrow> registry" where
  "feeds_set feedId feed feeds = AList.update feedId feed feeds"

definition feeds_get :: "registry \<Rightarrow> string \<Rightarrow> Feed option" where
  "feeds_get feeds feedId = map_of feeds feedId"

text \<open>A run of \<^verbatim>\<open>this.feeds.set\<close> calls, in order.\<close>

definition feeds_set_all :: "(string \<times> Feed) list \<Rightarrow> registry \<Rightarrow> registry" where
  "feeds_set_all entries feeds = fold (\<lambda>(feedId, feed). feeds_set feedId feed) entries feeds"

text \<open>
  An element of the parsed OPML document: its attributes \<^verbatim>\<open>@_xmlUrl\<close>, \<^verbatim>\<open>@_title\<close>,
  \<^verbatim>\<open>@_text\<close>, \<^verbatim>\<open>@_htmlUrl\<close>, and its nested \<^verbatim>\<open>outline\<close> property: the empty list when
  the property is missing, one element for an object, several for an array.
\<close>

datatype outline =
  Outline (xmlUrl: "string option") (titleAttr: "string option") (textAttr: "string option")
    (htmlUrlAttr: "string option") (nested: "outline list")

text \<open>
  \<^verbatim>\<open>processOutline\<close> writes into the map as it walks; the model returns the
  \<^verbatim>\<open>this.feeds.set\<close> calls of the walk, in order.
\<close>

fun processOutline :: "url_hostname \<Rightarrow> outline \<Rightarrow> string \<Rightarrow> (string \<times> Feed) list" where
  "processOutline H (Outline xu t tx hu os) cat =
     (if truthy xu then
        [(createFeedId H (the xu),
          \<lparr>title = js_or_str (js_or t tx) ''Unnamed Feed'', url = the xu, htmlUrl = hu,
           category = Some cat\<rparr>)]
      else if os \<noteq> [] then
        concat (map (\<lambda>item. processOutline H item (js_or_str (js_or t tx) cat)) os)
      else [])"

text \<open>\<^verbatim>\<open>processOutline\<close> on an array: \<^verbatim>\<open>outline.forEach(item => processOutline(item, category))\<close>.\<close>

definition processOutlines :: "url_hostname \<Rightarrow> outline list \<Rightarrow> string \<Rightarrow> (string \<times> Feed) list" where
  "processOutlines H os cat = concat (map (\<lambda>item. processOutline H item cat) os)"

text \<open>
  The file system and the two parsers belong to the platform.
  \<^verbatim>\<open>JSON.parse\<close> gives the elements of the array, or \<^term>\<open>None\<close> when it throws (also
  when the value is no array, where \<^verbatim>\<open>forEach\<close> throws before any element is read).
  An element is an object of the declared type, or one whose \<^verbatim>\<open>url\<close> is no string; on
  such an element \<^verbatim>\<open>createFeedId\<close> throws a \<^verbatim>\<open>TypeError\<close> from its own handler
  (\<^verbatim>\<open>url.replace\<close> is no function); an element outside the declared type that
  passes through \<^verbatim>\<open>createFeedId\<close> all the same is outside the model. The XML parser throws, or gives a document
  without \<^verbatim>\<open>opml.body.outline\<close>, or gives that property.
\<close>

datatype json_entry = Entry Feed | NoUrl

datatype parsed_xml = XmlThrows | NoBodyOutline | BodyOutline "outline list"

record file_env =
  existsSync :: "string \<Rightarrow> bool"
  readFileSync :: "string \<Rightarrow> string option"
  JSON_parse :: "string \<Rightarrow> json_entry list option"
  XML_parse :: "string \<Rightarrow> parsed_xml"

datatype load_error =
  FileNotFound string | ReadError | UnsupportedFormat string | InvalidOPML | ParseError
  | TypeError

text \<open>
  A loader works on the map in place. It returns the error it throws, if any, and the
  map as it leaves it.
\<close>

definition parseOPMLFeeds ::
    "url_hostname \<Rightarrow> file_env \<Rightarrow> string \<Rightarrow> registry \<Rightarrow> load_error option \<times> registry" where
  "parseOPMLFeeds H F opmlContent feeds =
     (case XML_parse F opmlContent of
        XmlThrows \<Rightarrow> (Some ParseError, feeds)
      | NoBodyOutline \<Rightarrow> (Some InvalidOPML, feeds)
      | BodyOutline os \<Rightarrow> (None, feeds_set_all (processOutlines H os []) feeds))"

text \<open>The \<^verbatim>\<open>feeds.forEach\<close> of \<^verbatim>\<open>parseJSONFeeds\<close>.\<close>

fun json_forEach ::
    "url_hostname \<Rightarrow> json_entry list \<Rightarrow> registry \<Rightarrow> load_error option \<times> registry" where
  "json_forEach H [] feeds = (None, feeds)"
| "json_forEach H (Entry feed # rest) feeds =
     json_forEach H rest
       (feeds_set (createFeedId H (url feed))
          \<lparr>title = title feed, url = url feed, htmlUrl = htmlUrl feed,
           category = category feed\<rparr> feeds)"
| "json_forEach H (NoUrl # rest) feeds = (Some TypeError, feeds)"

definition parseJSONFeeds ::
    "url_hostname \<Rightarrow> file_env \<Rightarrow> string \<Rightarrow> registry \<Rightarrow> load_error option \<times> registry" where
  "parseJSONFeeds H F jsonContent feeds =
     (case JSON_parse F jsonContent of
        None \<Rightarrow> (Some ParseError, feeds)
      | Some entries \<Rightarrow> json_forEach H entries feeds)"

definition addDefaultFeeds :: registry where
  "addDefaultFeeds =
     feeds_set ''techcrunch''
       \<lparr>title = ''TechCrunch'', url = ''https://techcrunch.com/feed/'',
        htmlUrl = Some ''https://techcrunch.com/'', category = Some ''Tech News''\<rparr>
       (feeds_set ''hackernews''
          \<lparr>title = ''Hacker News'', url = ''https://news.ycombinator.com/rss'',
           htmlUrl = Some ''https://news.ycombinator.com/'', category = Some ''Tech News''\<rparr>
          [])"

text \<open>
  \<^verbatim>\<open>path.extname\<close> on a POSIX path that does not end in a slash: from the last dot of
  the last segment, or empty when that segment has no dot or only a leading one.
\<close>

definition basename :: "string \<Rightarrow> string" where
  "basename p = rev (takeWhile (\<lambda>c. c \<noteq> CHR ''/'') (rev p))"

definition extname :: "string \<Rightarrow> string" where
  "extname p =
     (let b = basename p; e = rev (takeWhile (\<lambda>c. c \<noteq> CHR ''.'') (rev b))
      in if CHR ''.'' \<notin> set b \<or> length e + 1 = length b \<or> b = ''..'' then [] else CHR ''.'' # e)"

definition loadFeedsFromFile ::
    "url_hostname \<Rightarrow> file_env \<Rightarrow> string \<Rightarrow> registry \<Rightarrow> load_error option \<times> registry" where
  "loadFeedsFromFile H F filePath feeds =
     (case readFileSync F filePath of
        None \<Rightarrow> (Some ReadError, feeds)
      | Some fileContent \<Rightarrow>
          (let fileExt = toLowerCase (extname filePath) in
           if fileExt = ''.opml'' then parseOPMLFeeds H F fileContent feeds
           else if fileExt = ''.json'' then parseJSONFeeds H F fileContent feeds
           else (Some (UnsupportedFormat fileExt), feeds)))"


section \<open>The fetch orchestrator\<close>

text \<open>What \<^verbatim>\<open>rss-parser\<close> gives for a feed and for each of its items.\<close>

record RawItem =
  raw_title :: "string option"
  raw_link :: "string option"
  raw_pubDate :: "string option"
  raw_isoDate :: "string option"
  raw_content :: "string option"
  raw_contentSnippet :: "string option"
  raw_creator :: "string option"
  raw_categories :: "string list option"

record ParsedFeed =
  parsed_title :: "string option"
  parsed_items :: "RawItem list"

record FeedItem =
  item_title :: string
  link :: string
  pubDate :: string
  content :: "string option"
  contentSnippet :: "string option"
  creator :: "string option"
  categories :: "string list option"
  isoDate :: "string option"
  source :: string
  sourceUrl :: string

text \<open>
  The platform of a fetch: \<^verbatim>\<open>parser.parseURL\<close> (\<^term>\<open>None\<close> when the promise rejects),
  \<^verbatim>\<open>new Date(s).getTime()\<close> (\<^term>\<open>None\<close> for \<^verbatim>\<open>NaN\<close>, the time of an invalid date) and
  \<^verbatim>\<open>new Date().toISOString()\<close>.
\<close>

record fetch_env =
  parseURL :: "string \<Rightarrow> ParsedFeed option"
  Date_getTime :: "string \<Rightarrow> int option"
  now_iso :: string

datatype fetch_error = FeedNotFound string | FetchFailure

definition toFeedItem :: "fetch_env \<Rightarrow> Feed \<Rightarrow> ParsedFeed \<Rightarrow> RawItem \<Rightarrow> FeedItem" where
  "toFeedItem N feed parsedFeed item =
     \<lparr>item_title = js_or_str (raw_title item) ''No title'',
      link = js_or_str (raw_link item) [],
      pubDate = js_or_str (js_or (raw_pubDate item) (raw_isoDate item)) (now_iso N),
      content = raw_content item,
      contentSnippet = raw_contentSnippet item,
      creator = js_or (raw_creator item) (parsed_title parsedFeed),
      categories = raw_categories item,
      isoDate = raw_isoDate item,
      source = title feed,
      sourceUrl = js_or_str (htmlUrl feed) (url feed)\<rparr>"

definition getFeedItems ::
    "fetch_env \<Rightarrow> registry \<Rightarrow> string \<Rightarrow> nat \<Rightarrow> fetch_error + FeedItem list" where
  "getFeedItems N feeds feedId limit =
     (case feeds_get feeds feedId of
        None \<Rightarrow> Inl (FeedNotFound feedId)
      | Some feed \<Rightarrow>
          (case parseURL N (url feed) of
             None \<Rightarrow> Inl FetchFailure
           | Some parsedFeed \<Rightarrow>
               Inr (map (toFeedItem N feed parsedFeed) (take limit (parsed_items parsedFeed)))))"

text \<open>
  \<^verbatim>\<open>Math.ceil(limit / this.feeds.size)\<close>. The quotient of two integers of this size is
  exact enough in a double for the ceiling to be the mathematical one. On an empty map
  JavaScript gives \<^verbatim>\<open>Infinity\<close>, the model 0; no fetch is issued then.
\<close>

definition itemsPerFeed :: "nat \<Rightarrow> registry \<Rightarrow> nat" where
  "itemsPerFeed limit feeds = nat \<lceil>real limit / real (length feeds)\<rceil>"

text \<open>The condition of line 245, for one entry of the map.\<close>

definition selected :: "string option \<Rightarrow> Feed \<Rightarrow> bool" where
  "selected cat feed =
     (\<not> truthy cat \<or>
      (truthy (category feed) \<and> toLowerCase (the (category feed)) = toLowerCase (the cat)) \<or>
      (truthy (category feed) \<and>
         str_includes (toLowerCase (the (category feed))) (toLowerCase (the cat))) \<or>
      (title feed \<noteq> [] \<and> str_includes (toLowerCase (title feed)) (toLowerCase (the cat))))"

definition candidates :: "registry \<Rightarrow> string option \<Rightarrow> (string \<times> Feed) list" where
  "candidates feeds cat = filter (\<lambda>(feedId, feed). selected cat feed) feeds"

text \<open>The arguments of the \<^verbatim>\<open>getFeedItems\<close> calls of line 249, in order.\<close>

definition fetch_calls :: "registry \<Rightarrow> string option \<Rightarrow> nat \<Rightarrow> (string \<times> nat) list" where
  "fetch_calls feeds cat limit =
     map (\<lambda>(feedId, feed). (feedId, itemsPerFeed limit feeds)) (candidates feeds cat)"

text \<open>\<^verbatim>\<open>Promise.allSettled(feedPromises)\<close>: one outcome for each call, none lost.\<close>

definition allSettled ::
    "fetch_env \<Rightarrow> registry \<Rightarrow> string option \<Rightarrow> nat \<Rightarrow> (fetch_error + FeedItem list) list" where
  "allSettled N feeds cat limit =
     map (\<lambda>(feedId, n). getFeedItems N feeds feedId n) (fetch_calls feeds cat limit)"

text \<open>The fulfilled outcomes, flattened.\<close>

definition allItems :: "fetch_env \<Rightarrow> registry \<Rightarrow> string option \<Rightarrow> nat \<Rightarrow> FeedItem list" where
  "allItems N feeds cat limit =
     concat (map (\<lambda>r. case r of Inr v \<Rightarrow> v | Inl e \<Rightarrow> []) (allSettled N feeds cat limit))"

text \<open>\<^verbatim>\<open>new Date(a.isoDate || a.pubDate).getTime()\<close>.\<close>

definition effective_date :: "FeedItem \<Rightarrow> string" where
  "effective_date a = js_or_str (isoDate a) (pubDate a)"

definition timestamp :: "fetch_env \<Rightarrow> FeedItem \<Rightarrow> int option" where
  "timestamp N a = Date_getTime N (effective_date a)"

text \<open>The comparator of line 260: \<^verbatim>\<open>dateB.getTime() - dateA.getTime()\<close>, \<^verbatim>\<open>NaN\<close> when either is.\<close>

definition by_date :: "fetch_env \<Rightarrow> FeedItem \<Rightarrow> FeedItem \<Rightarrow> int option" where
  "by_date N a b =
     (case (timestamp N a, timestamp N b) of
        (Some dateA, Some dateB) \<Rightarrow> Some (dateB - dateA)
      | _ \<Rightarrow> None)"

definition getAllFeedItems ::
    "fetch_env \<Rightarrow> registry \<Rightarrow> string option \<Rightarrow> nat \<Rightarrow> fetch_error + FeedItem list" where
  "getAllFeedItems N feeds cat limit =
     Inr (take limit (array_sort (by_date N) (allItems N feeds cat limit)))"

text \<open>
  The candidate test as the specification words it: the category equals the filter, is
  contained in it or contains it, or the title contains it, all without regard to case.
\<close>

definition selected_spec :: "string option \<Rightarrow> Feed \<Rightarrow> bool" where
  "selected_spec cat feed =
     (\<not> truthy cat \<or>
      (truthy (category feed) \<and>
         (toLowerCase (the (category feed)) = toLowerCase (the cat) \<or>
          str_includes (toLowerCase (the cat)) (toLowerCase (the (category feed))) \<or>
          str_includes (toLowerCase (the (category feed))) (toLowerCase (the cat)))) \<or>
      str_includes (toLowerCase (title feed)) (toLowerCase (the cat)))"


section \<open>The category resolver\<close>

text \<open>A \<^verbatim>\<open>Set\<close> keeps the first insertion of each value.\<close>

definition set_add :: "string \<Rightarrow> string list \<Rightarrow> string list" where
  "set_add c cs = (if c \<in> set cs then cs else cs @ [c])"

definition getCategories :: "registry \<Rightarrow> string list" where
  "getCategories feeds =
     array_sort default_compare
       (fold (\<lambda>(feedId, feed) cs. if truthy (category feed) then set_add (the (category feed)) cs else cs)
          feeds [])"

text \<open>\<^verbatim>\<open>s.split(' ')[0]\<close>.\<close>

definition first_token :: "string \<Rightarrow> string" where
  "first_token s = takeWhile (\<lambda>c. c \<noteq> CHR '' '') s"

definition keywordMap :: "(string \<times> string list) list" where
  "keywordMap =
     [(''tech'', [''tech'', ''technology'', ''programming'', ''software'', ''developer'', ''ai'']),
      (''news'', [''news'', ''headlines'', ''current'']),
      (''business'', [''business'', ''finance'', ''economy'', ''market'']),
      (''health'', [''health'', ''medical'', ''wellness'', ''fitness'']),
      (''science'', [''science'', ''research'', ''study'', ''discovery'']),
      (''sports'', [''sports'', ''game'', ''team'', ''player''])]"

text \<open>The loop over \<^verbatim>\<open>Object.entries(keywordMap)\<close>, with its early return.\<close>

fun keyword_loop :: "string list \<Rightarrow> string \<Rightarrow> (string \<times> string list) list \<Rightarrow> string option" where
  "keyword_loop cs lowercaseKeyword [] = None"
| "keyword_loop cs lowercaseKeyword ((topic, keywords) # rest) =
     (if list_ex (\<lambda>k. str_includes lowercaseKeyword k) keywords then
        (case find (\<lambda>c. str_includes (toLowerCase c) topic \<or> toLowerCase c = topic) cs of
           Some categoryMatch \<Rightarrow> Some categoryMatch
         | None \<Rightarrow> keyword_loop cs lowercaseKeyword rest)
      else keyword_loop cs lowercaseKeyword rest)"

definition getCategoryByKeyword :: "registry \<Rightarrow> string \<Rightarrow> string option" where
  "getCategoryByKeyword feeds keyword =
     (let cs = getCategories feeds; lowercaseKeyword = toLowerCase keyword in
      case find (\<lambda>c. toLowerCase c = lowercaseKeyword) cs of
        Some exactMatch \<Rightarrow> Some exactMatch
      | None \<Rightarrow>
          (case find (\<lambda>c. str_includes (toLowerCase c) lowercaseKeyword \<or>
                           str_includes lowercaseKeyword (first_token (toLowerCase c))) cs of
             Some partialMatch \<Rightarrow> Some partialMatch
           | None \<Rightarrow> keyword_loop cs lowercaseKeyword keywordMap))"

text \<open>
  The second layer as the specification words it: the keyword is a substring of the
  category, or the keyword's own first token is.
\<close>

definition partial_spec :: "string \<Rightarrow> string \<Rightarrow> bool" where
  "partial_spec lowercaseKeyword c =
     (str_includes (toLowerCase c) lowercaseKeyword \<or>
      str_includes (toLowerCase c) (first_token lowercaseKeyword))"

definition resolve_spec :: "registry \<Rightarrow> string \<Rightarrow> string option" where
  "resolve_spec feeds keyword =
     (let cs = getCategories feeds; lowercaseKeyword = toLowerCase keyword in
      case find (\<lambda>c. toLowerCase c = lowercaseKeyword) cs of
        Some c \<Rightarrow> Some c
      | None \<Rightarrow>
          (case find (partial_spec lowercaseKeyword) cs of
             Some c \<Rightarrow> Some c
           | None \<Rightarrow> keyword_loop cs lowercaseKeyword keywordMap))"


section \<open>The listing\<close>

text \<open>
  \<^verbatim>\<open>categorizedFeeds\<close> is a plain object: a category that names a property of
  \<^verbatim>\<open>Object.prototype\<close> finds that property instead of an array, and \<^verbatim>\<open>push\<close> throws.
\<close>

definition prototype_keys :: "string list" where
  "prototype_keys =
     [''constructor'', ''__defineGetter__'', ''__defineSetter__'', ''hasOwnProperty'',
      ''__lookupGetter__'', ''__lookupSetter__'', ''isPrototypeOf'', ''propertyIsEnumerable'',
      ''toString'', ''valueOf'', ''__proto__'', ''toLocaleString'']"

definition listing_category :: "Feed \<Rightarrow> string" where
  "listing_category feed = js_or_str (category feed) ''Uncategorized''"

text \<open>The feeds of one category, in the order of the map.\<close>

definition feeds_of_category :: "registry \<Rightarrow> string \<Rightarrow> Feed list" where
  "feeds_of_category feeds c = filter (\<lambda>feed. listing_category feed = c) (map snd feeds)"

text \<open>The identifier and the line printed for one feed (lines 299 and 300).\<close>

definition listed_id :: "url_hostname \<Rightarrow> Feed \<Rightarrow> string" where
  "listed_id H feed = createFeedId H (url feed)"

definition feed_line :: "url_hostname \<Rightarrow> Feed \<Rightarrow> string" where
  "feed_line H feed = ''- '' @ title feed @ '' (use: rss --'' @ listed_id H feed @ '')'' @ [CHR 0x0A]"

text \<open>
  \<open>L\<close> is \<^verbatim>\<open>localeCompare\<close>. \<^verbatim>\<open>Object.keys(...).sort()\<close> sorts distinct keys, so the order
  in which the object enumerates them does not show.
\<close>

definition getFeedsList ::
    "url_hostname \<Rightarrow> (string \<Rightarrow> string \<Rightarrow> int) \<Rightarrow> registry \<Rightarrow> string option" where
  "getFeedsList H L feeds =
     (if list_ex (\<lambda>(feedId, feed). listing_category feed \<in> set prototype_keys) feeds then None
      else Some (''Available RSS Feeds:'' @ [CHR 0x0A, CHR 0x0A] @
        concat (map (\<lambda>c. c @ '':'' @ [CHR 0x0A] @
                      concat (map (feed_line H)
                        (array_sort (\<lambda>a b. Some (L (title a) (title b))) (feeds_of_category feeds c))) @
                      [CHR 0x0A])
          (array_sort default_compare (fold set_add (map (\<lambda>(feedId, feed). listing_category feed) feeds) [])))))"


section \<open>The aggregator's state\<close>

record aggregator =
  feeds :: registry
  feedsPath :: "string option"

text \<open>\<^verbatim>\<open>setFeedsPath\<close>: the error it throws, if any, and the state afterwards.\<close>

definition setFeedsPath ::
    "url_hostname \<Rightarrow> file_env \<Rightarrow> string \<Rightarrow> aggregator \<Rightarrow> load_error option \<times> aggregator" where
  "setFeedsPath H F path s =
     (if \<not> existsSync F path then (Some (FileNotFound path), s)
      else
        (case loadFeedsFromFile H F path (feeds s) of
           (e, new_feeds) \<Rightarrow> (e, s\<lparr>feedsPath := Some path, feeds := new_feeds\<rparr>)))"

text \<open>
  The constructor: \<open>configured\<close> is the path found in the desktop configuration, if any,
  \<open>sample\<close> is \<^verbatim>\<open>SAMPLE_OPML_PATH\<close>. The map is empty when the load begins.
\<close>

definition initializeFeeds ::
    "url_hostname \<Rightarrow> file_env \<Rightarrow> string option \<Rightarrow> string \<Rightarrow> aggregator" where
  "initializeFeeds H F configured sample =
     (let fp = (if truthy configured then configured else None);
          path = (if truthy fp \<and> existsSync F (the fp) then the fp else sample)
      in case loadFeedsFromFile H F path [] of
           (None, loaded) \<Rightarrow> \<lparr>feeds = loaded, feedsPath = fp\<rparr>
         | (Some e, partly) \<Rightarrow> \<lparr>feeds = addDefaultFeeds, feedsPath = fp\<rparr>)"


section \<open>The hierarchical loader as the specification words it\<close>

text \<open>
  The leaves that the walk reaches, each with the labels of the folders that enclose it
  and carry a label, outermost first. A folder's label is its \<^verbatim>\<open>title\<close> attribute, or
  else its \<^verbatim>\<open>text\<close> attribute.
\<close>

fun leaves :: "outline \<Rightarrow> string list \<Rightarrow> (outline \<times> string list) list" where
  "leaves (Outline xu t tx hu os) labels =
     (if truthy xu then [(Outline xu t tx hu os, labels)]
      else if os \<noteq> [] then
        concat (map (\<lambda>item. leaves item
                  (if truthy t then labels @ [the t]
                   else if truthy tx then labels @ [the tx] else labels)) os)
      else [])"

text \<open>The innermost of the labels, or \<open>cat0\<close> when no folder with a label encloses the leaf.\<close>

definition innermost_label :: "string \<Rightarrow> string list \<Rightarrow> string" where
  "innermost_label cat0 labels = last (cat0 # labels)"

definition leaf_entry :: "url_hostname \<Rightarrow> string \<Rightarrow> outline \<times> string list \<Rightarrow> string \<times> Feed" where
  "leaf_entry H cat0 = (\<lambda>(leaf, labels).
     (createFeedId H (the (xmlUrl leaf)),
      \<lparr>title = (if truthy (titleAttr leaf) then the (titleAttr leaf)
                else if truthy (textAttr leaf) then the (textAttr leaf) else ''Unnamed Feed''),
       url = the (xmlUrl leaf), htmlUrl = htmlUrlAttr leaf,
       category = Some (innermost_label cat0 labels)\<rparr>))"

section \<open>The layers of the resolver, one predicate each\<close>

definition exact_match :: "string \<Rightarrow> string \<Rightarrow> bool" where
  "exact_match k c = (toLowerCase c = k)"

text \<open>
  The second layer: the keyword is a substring of the category, or the first token of the
  category is a substring of the keyword.
\<close>

definition partial_match :: "string \<Rightarrow> string \<Rightarrow> bool" where
  "partial_match k c =
     (str_includes (toLowerCase c) k \<or> str_includes k (first_token (toLowerCase c)))"

text \<open>
  An entry of the synonym table hits when the keyword holds one of its terms and some
  category holds its topic.
\<close>

definition topic_hit :: "string list \<Rightarrow> string \<Rightarrow> string \<times> string list \<Rightarrow> bool" where
  "topic_hit cs k entry =
     (list_ex (\<lambda>term. str_includes k term) (snd entry) \<and>
      list_ex (\<lambda>c. str_includes (toLowerCase c) (fst entry)) cs)"

section \<open>The order of the merged items\<close>

text \<open>
  \<open>a\<close> is older than \<open>b\<close> when both effective timestamps are dates and that of \<open>a\<close> is
  the earlier. A sequence is in non-increasing order of effective timestamp when no
  item stands before one it is older than.
\<close>

definition older :: "fetch_env \<Rightarrow> FeedItem \<Rightarrow> FeedItem \<Rightarrow> bool" where
  "older N a b =
     (case (timestamp N a, timestamp N b) of
        (Some ta, Some tb) \<Rightarrow> ta < tb
      | _ \<Rightarrow> False)"

definition newest_first :: "fetch_env \<Rightarrow> FeedItem list \<Rightarrow> bool" where
  "newest_first N items = sorted_wrt (\<lambda>a b. \<not> older N a b) items"

text \<open>The value of a settled promise: the items, none when it was rejected.\<close>

definition items_of :: "fetch_error + FeedItem list \<Rightarrow> FeedItem list" where
  "items_of r = (case r of Inr v \<Rightarrow> v | Inl e \<Rightarrow> [])"


section \<open>Sample inputs\<close>

text \<open>
  The hostnames that \<^verbatim>\<open>new URL\<close> gives for the addresses used in the examples below; the
  strings of the examples that are no URLs are outside the table.
\<close>

definition sample_hostname :: url_hostname where
  "sample_hostname =
     [''https://www.example.com/feed'' \<mapsto> ''www.example.com'',
      ''https://example.com/other'' \<mapsto> ''example.com'',
      ''https://awww.example.com/feed'' \<mapsto> ''awww.example.com'',
      ''https://news.ycombinator.com/rss'' \<mapsto> ''news.ycombinator.com'',
      ''https://techcrunch.com/feed/'' \<mapsto> ''techcrunch.com'',
      ''https://a.example/rss'' \<mapsto> ''a.example'',
      ''https://b.example/rss'' \<mapsto> ''b.example'',
      ''https://c.example/rss'' \<mapsto> ''c.example'']"

text \<open>
  An OPML body: a folder \<^verbatim>\<open>Outer\<close> that holds a folder \<^verbatim>\<open>Inner\<close> with one feed, a folder
  without a label with one feed, and a feed of its own; and a feed outside every folder.
\<close>

definition sample_outlines :: "outline list" where
  "sample_outlines =
     [Outline None (Some ''Outer'') None None
        [Outline None None (Some ''Inner'') None
           [Outline (Some ''https://a.example/rss'') None (Some ''A feed'') None []],
         Outline None None None None
           [Outline (Some ''https://b.example/rss'') None None None []],
         Outline (Some ''https://c.example/rss'') (Some ''C'') (Some ''c text'') None []],
      Outline (Some ''https://example.com/other'') (Some ''Top'') None None []]"

definition feed_a :: Feed where
  "feed_a = \<lparr>title = ''Cooking Daily'', url = ''https://a.example/rss'', htmlUrl = None,
             category = Some ''Cooking''\<rparr>"

definition feed_b :: Feed where
  "feed_b = \<lparr>title = ''Ars Technica'', url = ''https://b.example/rss'', htmlUrl = None,
             category = Some ''Tech''\<rparr>"

definition feed_c :: Feed where
  "feed_c = \<lparr>title = ''Gadget Digest'', url = ''https://c.example/rss'', htmlUrl = None,
             category = Some ''Daily Tech''\<rparr>"

definition feed_x :: Feed where
  "feed_x = \<lparr>title = ''World Wire'', url = ''https://example.com/other'', htmlUrl = None,
             category = Some ''Tech News''\<rparr>"

definition sample_registry :: registry where
  "sample_registry =
     [(''example-com'', feed_x), (''a-example'', feed_a), (''b-example'', feed_b),
      (''c-example'', feed_c)]"

text \<open>
  A sample network. The feed at \<^verbatim>\<open>a.example\<close> has three items, the second with a
  publication date that is no date (\<^verbatim>\<open>rss-parser\<close> then sets no \<^verbatim>\<open>isoDate\<close>); the feeds
  at \<^verbatim>\<open>b.example\<close> and \<^verbatim>\<open>c.example\<close> have one item each; every other address fails.
\<close>

definition raw_item :: "string \<Rightarrow> string \<Rightarrow> string option \<Rightarrow> RawItem" where
  "raw_item t p i =
     \<lparr>raw_title = Some t, raw_link = None, raw_pubDate = Some p, raw_isoDate = i,
      raw_content = None, raw_contentSnippet = None, raw_creator = None,
      raw_categories = None\<rparr>"

definition sample_net :: fetch_env where
  "sample_net =
     \<lparr>parseURL =
        [''https://a.example/rss'' \<mapsto>
           \<lparr>parsed_title = Some ''A'',
            parsed_items =
              [raw_item ''a1'' ''Mon, 01 Jan 2024 00:00:00 GMT'' (Some ''2024-01-01T00:00:00.000Z''),
               raw_item ''a2'' ''yesterday'' None,
               raw_item ''a3'' ''Tue, 02 Jan 2024 00:00:00 GMT'' (Some ''2024-01-02T00:00:00.000Z'')]\<rparr>,
         ''https://b.example/rss'' \<mapsto>
           \<lparr>parsed_title = Some ''B'',
            parsed_items =
              [raw_item ''b1'' ''Wed, 03 Jan 2024 00:00:00 GMT'' (Some ''2024-01-03T00:00:00.000Z'')]\<rparr>,
         ''https://c.example/rss'' \<mapsto>
           \<lparr>parsed_title = Some ''C'',
            parsed_items =
              [raw_item ''c1'' ''Thu, 04 Jan 2024 00:00:00 GMT'' (Some ''2024-01-04T00:00:00.000Z'')]\<rparr>],
      Date_getTime =
        [''2024-01-01T00:00:00.000Z'' \<mapsto> 1704067200000,
         ''2024-01-02T00:00:00.000Z'' \<mapsto> 1704153600000,
         ''2024-01-03T00:00:00.000Z'' \<mapsto> 1704240000000,
         ''2024-01-04T00:00:00.000Z'' \<mapsto> 1704326400000],
      now_iso = ''2024-01-05T00:00:00.000Z''\<rparr>"

definition sample_three :: registry where
  "sample_three = [(''example-com'', feed_x), (''b-example'', feed_b), (''c-example'', feed_c)]"

text \<open>
  A sample file system: a JSON source with one entry, a JSON source whose second element
  has no \<^verbatim>\<open>url\<close>, a text file, and a JSON file cut short. No other path exists.
\<close>

definition sample_files :: file_env where
  \<open>sample_files =
     \<lparr>existsSync =
        (\<lambda>p. p \<in> set [''/feeds.json'', ''/partial.json'', ''/notes.txt'', ''/broken.json'']),
      readFileSync =
        [''/feeds.json'' \<mapsto>
           ''[{"title":"Ars Technica","url":"https://b.example/rss","category":"Tech"}]'',
         ''/partial.json'' \<mapsto>
           ''[{"title":"Ars Technica","url":"https://b.example/rss","category":"Tech"},{"title":"X"}]'',
         ''/notes.txt'' \<mapsto> ''Ars Technica https://b.example/rss'',
         ''/broken.json'' \<mapsto> ''[{"title":''],
      JSON_parse =
        [''[{"title":"Ars Technica","url":"https://b.example/rss","category":"Tech"}]'' \<mapsto>
           [Entry feed_b],
         ''[{"title":"Ars Technica","url":"https://b.example/rss","category":"Tech"},{"title":"X"}]'' \<mapsto>
           [Entry feed_b, NoUrl]],
      XML_parse = (\<lambda>content. NoBodyOutline)\<rparr>\<close>

text \<open>A stand-in for \<^verbatim>\<open>localeCompare\<close> on the titles of the examples.\<close>

definition sample_localeCompare :: "string \<Rightarrow> string \<Rightarrow> int" where
  "sample_localeCompare a b = sort_order default_compare a b"

section \<open>Facts about the string functions\<close>

lemma startsWith_append: "startsWith s p \<longleftrightarrow> (\<exists>r. s = p @ r)"
  unfolding startsWith_def
  by (metis append_eq_conv_conj append_take_drop_id)

lemma str_includes_iff: "str_includes s t \<longleftrightarrow> (\<exists>a b. s = a @ t @ b)"
proof (induction s)
  case Nil
  then show ?case by auto
next
  case (Cons c cs)
  show ?case
  proof
    assume "str_includes (c # cs) t"
    then consider "startsWith (c # cs) t" | "str_includes cs t" by auto
    then show "\<exists>a b. c # cs = a @ t @ b"
    proof cases
      case 1
      then obtain r where "c # cs = t @ r" by (auto simp: startsWith_append)
      then have "c # cs = [] @ t @ r" by simp
      then show ?thesis by blast
    next
      case 2
      then obtain a b where "cs = a @ t @ b" using Cons.IH by auto
      then have "c # cs = (c # a) @ t @ b" by simp
      then show ?thesis by blast
    qed
  next
    assume "\<exists>a b. c # cs = a @ t @ b"
    then obtain a b where ab: "c # cs = a @ t @ b" by auto
    show "str_includes (c # cs) t"
    proof (cases a)
      case Nil
      then have "startsWith (c # cs) t" using ab by (simp add: startsWith_append)
      then show ?thesis by simp
    next
      case (Cons x a')
      then have "cs = a' @ t @ b" using ab by simp
      then show ?thesis using Cons.IH by auto
    qed
  qed
qed

lemma replace_first_prefix:
  "startsWith s p \<Longrightarrow> replace_first p [] s = drop (length p) s"
  by (cases s) (auto simp: startsWith_def)

lemma replace_first_absent:
  "\<not> str_includes s p \<Longrightarrow> replace_first p r s = s"
  by (induction s) auto


section \<open>The identifier deriver: properties\<close>

text \<open>
  C4, as the specification states it, fails on the code: the fallback removes every
  \<^verbatim>\<open>http://\<close> and \<^verbatim>\<open>https://\<close> of the input (the regular expression is global and has
  no anchor), not only a leading one. The string below is no URL; the code derives
  \<^verbatim>\<open>see-example-com\<close> from it, the derivation of the specification
  \<^verbatim>\<open>see-http---example-com\<close>.
\<close>

theorem createFeedId_scheme_counterexample:
  "createFeedId sample_hostname ''see http://example.com'' = ''see-example-com'' \<and>
   deriveId_spec sample_hostname ''see http://example.com'' = ''see-http---example-com'' \<and>
   createFeedId sample_hostname ''see http://example.com'' \<noteq>
     deriveId_spec sample_hostname ''see http://example.com''"
  by code_simp

text \<open>
  On the hostname path \<^verbatim>\<open>replace('www.', '')\<close> removes the first \<^verbatim>\<open>www.\<close> wherever it
  stands, so a hostname that holds it past its start loses it there.
\<close>

lemma createFeedId_inner_www:
  "createFeedId sample_hostname ''https://awww.example.com/feed'' = ''aexample-com''"
  by code_simp

text \<open>
  C4, amended: for a URL \<open>u\<close> that parses, with a hostname \<open>h\<close> in which \<^verbatim>\<open>www.\<close> stands
  at the start or nowhere, the identifier is \<open>h\<close> without that leading \<^verbatim>\<open>www.\<close> and with
  every dot replaced by a dash. For an input \<open>v\<close> that does not parse, the identifier is
  \<open>v\<close> with every occurrence of \<^verbatim>\<open>http://\<close> and \<^verbatim>\<open>https://\<close> removed, every character
  outside \<^verbatim>\<open>[A-Za-z0-9]\<close> replaced by a dash, in lower case.
\<close>

theorem createFeedId_derivation:
  assumes "H u = Some h"
    and "startsWith h ''www.'' \<or> \<not> str_includes h ''www.''"
    and "H v = None"
  shows "createFeedId H u = dots_to_dashes (strip_leading ''www.'' h) \<and>
         createFeedId H v = toLowerCase (non_alnum_to_dashes (strip_schemes v))"
proof -
  have "replace_first ''www.'' [] h = strip_leading ''www.'' h"
  proof (cases "startsWith h ''www.''")
    case True
    then show ?thesis by (simp add: replace_first_prefix strip_leading_def)
  next
    case False
    then have "\<not> str_includes h ''www.''" using assms(2) by simp
    then show ?thesis using False by (simp add: replace_first_absent strip_leading_def)
  qed
  then show ?thesis using assms(1,3) by (simp add: createFeedId_def)
qed

theorem createFeedId_derivation_witness:
  "createFeedId sample_hostname ''https://www.example.com/feed'' = ''example-com'' \<and>
   createFeedId sample_hostname ''https://example.com/other'' = ''example-com'' \<and>
   createFeedId sample_hostname ''My Feed / https://x'' = ''my-feed---x''"
proof -
  have u1: "sample_hostname ''https://www.example.com/feed'' = Some ''www.example.com''"
    and u2: "sample_hostname ''https://example.com/other'' = Some ''example.com''"
    and v: "sample_hostname ''My Feed / https://x'' = None"
    by (simp_all add: sample_hostname_def)
  have w1: "startsWith ''www.example.com'' ''www.'' \<or> \<not> str_includes ''www.example.com'' ''www.''"
    and w2: "startsWith ''example.com'' ''www.'' \<or> \<not> str_includes ''example.com'' ''www.''"
    by code_simp+
  have r1: "dots_to_dashes (strip_leading ''www.'' ''www.example.com'') = ''example-com''"
    and r2: "dots_to_dashes (strip_leading ''www.'' ''example.com'') = ''example-com''"
    and r3: "toLowerCase (non_alnum_to_dashes (strip_schemes ''My Feed / https://x'')) = ''my-feed---x''"
    by code_simp+
  show ?thesis
    using createFeedId_derivation[OF u1 w1 v] createFeedId_derivation[OF u2 w2 v] r1 r2 r3
    by simp
qed


section \<open>The item limit: properties\<close>

lemma dashes_digit_here_iff:
  "dashes_digit_here s \<longleftrightarrow> (\<exists>d b. s = ''--'' @ d # b \<and> is_digit d)"
  by (auto simp: dashes_digit_here_def startsWith_append split: list.splits)

lemma match_None_iff:
  "match_dashes_digits s = None \<longleftrightarrow> \<not> (\<exists>a d b. s = a @ ''--'' @ d # b \<and> is_digit d)"
proof (induction s)
  case Nil
  then show ?case by simp
next
  case (Cons c cs)
  have split: "(\<exists>a d b. c # cs = a @ ''--'' @ d # b \<and> is_digit d) \<longleftrightarrow>
      dashes_digit_here (c # cs) \<or> (\<exists>a d b. cs = a @ ''--'' @ d # b \<and> is_digit d)"
  proof
    assume "\<exists>a d b. c # cs = a @ ''--'' @ d # b \<and> is_digit d"
    then obtain a d b where e: "c # cs = a @ ''--'' @ d # b" and d: "is_digit d" by blast
    show "dashes_digit_here (c # cs) \<or> (\<exists>a d b. cs = a @ ''--'' @ d # b \<and> is_digit d)"
    proof (cases a)
      case Nil
      then have "dashes_digit_here (c # cs)"
        using e d unfolding dashes_digit_here_iff by auto
      then show ?thesis ..
    next
      case (Cons x a')
      then have "cs = a' @ ''--'' @ d # b" using e by simp
      then show ?thesis using d by blast
    qed
  next
    assume "dashes_digit_here (c # cs) \<or> (\<exists>a d b. cs = a @ ''--'' @ d # b \<and> is_digit d)"
    then show "\<exists>a d b. c # cs = a @ ''--'' @ d # b \<and> is_digit d"
    proof
      assume "dashes_digit_here (c # cs)"
      then obtain d b where "c # cs = [] @ ''--'' @ d # b" "is_digit d"
        unfolding dashes_digit_here_iff by auto
      then show ?thesis by blast
    next
      assume "\<exists>a d b. cs = a @ ''--'' @ d # b \<and> is_digit d"
      then obtain a d b where "cs = a @ ''--'' @ d # b" "is_digit d" by blast
      then have "c # cs = (c # a) @ ''--'' @ d # b" by simp
      then show ?thesis using \<open>is_digit d\<close> by blast
    qed
  qed
  show ?case using Cons.IH split by auto
qed

lemma takeWhile_digits:
  "list_all is_digit ds \<Longrightarrow> rest = [] \<or> \<not> is_digit (hd rest) \<Longrightarrow>
   takeWhile is_digit (ds @ rest) = ds"
  by (induction ds) (auto simp: takeWhile_eq_Nil_iff neq_Nil_conv)

lemma dashes_digit_here_prefix:
  "length s \<ge> 3 \<Longrightarrow> dashes_digit_here (s @ t) = dashes_digit_here s"
  by (cases s; cases "tl s"; cases "tl (tl s)") (auto simp: dashes_digit_here_def startsWith_def)

lemma match_first:
  assumes "ds \<noteq> []" "list_all is_digit ds" "rest = [] \<or> \<not> is_digit (hd rest)"
  shows "match_dashes_digits (pre @ ''--'') = None \<Longrightarrow>
         match_dashes_digits (pre @ ''--'' @ ds @ rest) = Some ds"
proof (induction pre)
  case Nil
  obtain d ds' where ds: "ds = d # ds'" using assms(1) by (cases ds) auto
  then have "is_digit d" using assms(2) by simp
  then have "dashes_digit_here (''--'' @ ds @ rest)"
    by (simp add: dashes_digit_here_def startsWith_def ds)
  then show ?case using takeWhile_digits[OF assms(2,3)] by simp
next
  case (Cons c pre)
  have len: "length ((c # pre) @ ''--'') \<ge> 3" by simp
  have nh: "\<not> dashes_digit_here ((c # pre) @ ''--'')"
    and rec: "match_dashes_digits (pre @ ''--'') = None"
    using Cons.prems by (auto split: if_splits)
  have "dashes_digit_here (((c # pre) @ ''--'') @ (ds @ rest)) =
        dashes_digit_here ((c # pre) @ ''--'')"
    using len by (rule dashes_digit_here_prefix)
  then have "\<not> dashes_digit_here (c # pre @ ''--'' @ ds @ rest)" using nh by simp
  then show ?case using Cons.IH[OF rec] by simp
qed

lemma extract_limit_range: "1 \<le> extract_limit p \<and> extract_limit p \<le> 50"
  by (auto simp: extract_limit_def split: option.splits)

text \<open>
  C8, as the specification states it, fails on the code. The regular expression has no
  anchor: a parameter that begins with \<^verbatim>\<open>--\<close> gives the first run of digits that follows
  a \<^verbatim>\<open>--\<close> anywhere in it. \<^verbatim>\<open>--12abc\<close> is not \<^verbatim>\<open>--\<close> and digits, and the limit is 12, not
  10; \<^verbatim>\<open>--x--5\<close> gives 5. A parameter that holds \<^verbatim>\<open>--5\<close> but does not begin with \<^verbatim>\<open>--\<close>
  gives 10.
\<close>

theorem extract_limit_counterexample:
  "extract_limit ''--12abc'' = 12 \<and> limit_spec ''--12abc'' = 10 \<and>
   extract_limit ''--x--5'' = 5 \<and> limit_spec ''--x--5'' = 10 \<and>
   extract_limit ''x--5'' = 10"
  by code_simp

text \<open>
  C8, amended: the limit is always in \<open>[1,50]\<close>. It is 10 for a parameter \<open>q\<close> that does
  not begin with \<^verbatim>\<open>--\<close>, and for a parameter \<open>r\<close> that begins with \<^verbatim>\<open>--\<close> and holds no
  \<^verbatim>\<open>--\<close> followed by a digit. For a parameter that begins with \<^verbatim>\<open>--\<close> and whose first
  \<^verbatim>\<open>--\<close> followed by a digit is followed by the run of digits \<open>ds\<close>, it is the
  value of \<open>ds\<close> clamped into \<open>[1,50]\<close>; this is the case of \<^verbatim>\<open>--0\<close> (limit 1) and of
  \<^verbatim>\<open>--999\<close> (limit 50).
\<close>

theorem extract_limit_first_match:
  assumes "\<not> startsWith q ''--''"
    and "startsWith r ''--''"
    and "\<not> (\<exists>a d b. r = a @ ''--'' @ d # b \<and> is_digit d)"
    and "startsWith (pre @ ''--'' @ ds @ rest) ''--''"
    and "\<not> (\<exists>a d b. pre @ ''--'' = a @ ''--'' @ d # b \<and> is_digit d)"
    and "ds \<noteq> []" and "list_all is_digit ds" and "rest = [] \<or> \<not> is_digit (hd rest)"
  shows "extract_limit q = 10 \<and> extract_limit r = 10 \<and>
         extract_limit (pre @ ''--'' @ ds @ rest) = min (max (parseInt10 ds) 1) 50 \<and>
         1 \<le> extract_limit p \<and> extract_limit p \<le> 50"
proof -
  have q: "extract_limit q = 10" using assms(1) by (simp add: extract_limit_def)
  have "match_dashes_digits r = None" using assms(3) by (simp add: match_None_iff)
  then have r: "extract_limit r = 10" by (simp add: extract_limit_def)
  have "match_dashes_digits (pre @ ''--'') = None" using assms(5) by (simp add: match_None_iff)
  then have "match_dashes_digits (pre @ ''--'' @ ds @ rest) = Some ds"
    by (rule match_first[OF assms(6,7,8)])
  then have m: "extract_limit (pre @ ''--'' @ ds @ rest) = min (max (parseInt10 ds) 1) 50"
    using assms(4) by (simp add: extract_limit_def)
  show ?thesis using q r m extract_limit_range by blast
qed

theorem extract_limit_first_match_witness:
  "extract_limit ''notanumber'' = 10 \<and> extract_limit ''--abc'' = 10 \<and>
   extract_limit ''--0'' = 1 \<and> extract_limit ''--999'' = 50 \<and> extract_limit ''--x--5y'' = 5"
proof -
  have q: "\<not> startsWith ''notanumber'' ''--''" by code_simp
  have r1: "startsWith ''--abc'' ''--''" by code_simp
  have m1: "match_dashes_digits ''--abc'' = None" by code_simp
  have r2: "\<not> (\<exists>a d b. ''--abc'' = a @ ''--'' @ d # b \<and> is_digit d)"
    by (rule iffD1[OF match_None_iff m1])
  have m2: "match_dashes_digits ([] @ ''--'') = None" by code_simp
  have e: "\<not> (\<exists>a d b. [] @ ''--'' = a @ ''--'' @ d # b \<and> is_digit d)"
    by (rule iffD1[OF match_None_iff m2])
  have m3: "match_dashes_digits (''--x'' @ ''--'') = None" by code_simp
  have x: "\<not> (\<exists>a d b. ''--x'' @ ''--'' = a @ ''--'' @ d # b \<and> is_digit d)"
    by (rule iffD1[OF match_None_iff m3])
  have s0: "startsWith ([] @ ''--'' @ ''0'' @ []) ''--''" by code_simp
  have s9: "startsWith ([] @ ''--'' @ ''999'' @ []) ''--''" by code_simp
  have s5: "startsWith (''--x'' @ ''--'' @ ''5'' @ ''y'') ''--''" by code_simp
  have d0: "list_all is_digit ''0''" and d9: "list_all is_digit ''999''"
    and d5: "list_all is_digit ''5''"
    by code_simp+
  have ny: "''y'' = [] \<or> \<not> is_digit (hd ''y'')" by code_simp
  have v0: "min (max (parseInt10 ''0'') 1) 50 = 1"
    and v9: "min (max (parseInt10 ''999'') 1) 50 = 50"
    and v5: "min (max (parseInt10 ''5'') 1) 50 = 5" by code_simp+
  have A: "extract_limit ''notanumber'' = 10 \<and> extract_limit ''--abc'' = 10 \<and>
           extract_limit ([] @ ''--'' @ ''0'' @ []) = 1"
    using extract_limit_first_match[OF q r1 r2 s0 e _ d0, of "[]"] v0 by simp
  have B: "extract_limit ([] @ ''--'' @ ''999'' @ []) = 50"
    using extract_limit_first_match[OF q r1 r2 s9 e _ d9, of "[]"] v9 by simp
  have C: "extract_limit (''--x'' @ ''--'' @ ''5'' @ ''y'') = 5"
    using extract_limit_first_match[OF q r1 r2 s5 x _ d5 ny] v5 by simp
  show ?thesis using A B C by simp
qed


section \<open>The hierarchical loader: properties\<close>

lemma js_or_str_or:
  "js_or_str (js_or a b) d = (if truthy a then the a else if truthy b then the b else d)"
  by (auto simp: js_or_str_def js_or_def truthy_def split: option.splits)

lemma innermost_label_snoc [simp]: "innermost_label cat0 (labels @ [l]) = l"
  by (simp add: innermost_label_def)

lemma processOutline_leaves:
  "processOutline H item (innermost_label cat0 labels) =
   map (leaf_entry H cat0) (leaves item labels)"
proof (induction item labels rule: leaves.induct)
  case (1 xu t tx hu os labels)
  show ?case
  proof (cases "truthy xu")
    case True
    then show ?thesis by (simp add: leaf_entry_def js_or_str_or)
  next
    case leaf: False
    show ?thesis
    proof (cases "os = []")
      case True
      then show ?thesis using leaf by simp
    next
      case False
      define ls where
        "ls = (if truthy t then labels @ [the t] else if truthy tx then labels @ [the tx] else labels)"
      have cat: "js_or_str (js_or t tx) (innermost_label cat0 labels) = innermost_label cat0 ls"
        by (simp add: js_or_str_or ls_def)
      have IH: "\<forall>item \<in> set os. processOutline H item (innermost_label cat0 ls) =
                  map (leaf_entry H cat0) (leaves item ls)"
        using "1.IH"[OF leaf False] unfolding ls_def by blast
      have "processOutline H (Outline xu t tx hu os) (innermost_label cat0 labels) =
            concat (map (\<lambda>item. processOutline H item (innermost_label cat0 ls)) os)"
        using leaf False cat by simp
      also have "map (\<lambda>item. processOutline H item (innermost_label cat0 ls)) os =
                 map (\<lambda>item. map (leaf_entry H cat0) (leaves item ls)) os"
        using IH by simp
      also have "concat (map (\<lambda>item. map (leaf_entry H cat0) (leaves item ls)) os) =
                 map (leaf_entry H cat0) (leaves (Outline xu t tx hu os) labels)"
        using leaf False unfolding ls_def by (simp add: map_concat comp_def)
      finally show ?thesis .
    qed
  qed
qed

text \<open>
  C9: the \<^verbatim>\<open>set\<close> calls of the hierarchical loader are, in order, one for each leaf that
  the walk reaches. The category of a leaf is the label of the innermost folder that
  encloses it and carries a label (a folder without a label passes on the category it
  received), and the empty string for a leaf outside every such folder. Its title is its
  \<^verbatim>\<open>title\<close> attribute, or else its \<^verbatim>\<open>text\<close> attribute, or else \<^verbatim>\<open>Unnamed Feed\<close>.
\<close>

theorem leaf_category_innermost:
  "processOutlines H os [] = map (leaf_entry H []) (concat (map (\<lambda>item. leaves item []) os))"
proof -
  have "innermost_label [] [] = []" by (simp add: innermost_label_def)
  then have "\<And>item. processOutline H item [] = map (leaf_entry H []) (leaves item [])"
    using processOutline_leaves[of H _ "[]" "[]"] by simp
  then show ?thesis by (simp add: processOutlines_def map_concat comp_def)
qed

theorem leaf_category_innermost_witness:
  "map (\<lambda>(feedId, feed). (title feed, category feed))
     (processOutlines sample_hostname sample_outlines []) =
   [(''A feed'', Some ''Inner''), (''Unnamed Feed'', Some ''Outer''), (''C'', Some ''Outer''),
    (''Top'', Some [])]"
proof -
  have "map (\<lambda>(feedId, feed). (title feed, category feed))
          (map (leaf_entry sample_hostname [])
             (concat (map (\<lambda>item. leaves item []) sample_outlines))) =
        [(''A feed'', Some ''Inner''), (''Unnamed Feed'', Some ''Outer''), (''C'', Some ''Outer''),
         (''Top'', Some [])]"
    by code_simp
  then show ?thesis
    using leaf_category_innermost[of sample_hostname sample_outlines] by simp
qed


section \<open>The fetch orchestrator: properties\<close>

text \<open>
  C7: the calls that \<^verbatim>\<open>getAllFeedItems\<close> issues are one for each candidate, in order,
  and each carries the budget \<open>\<lceil>limit / size\<rceil>\<close>, where \<open>size\<close> is the size of the whole
  registry, whatever the filter and however many candidates it selects.
\<close>

theorem per_feed_budget:
  "map fst (fetch_calls reg cat limit) = map fst (candidates reg cat) \<and>
   (\<forall>(feedId, n) \<in> set (fetch_calls reg cat limit).
      int n = \<lceil>real limit / real (length reg)\<rceil>)"
proof -
  have "0 \<le> real limit / real (length reg)" by simp
  then have "- 1 < real limit / real (length reg)" by linarith
  then have "0 \<le> \<lceil>real limit / real (length reg)\<rceil>" by (simp only: zero_le_ceiling)
  then have "int (itemsPerFeed limit reg) = \<lceil>real limit / real (length reg)\<rceil>"
    by (simp add: itemsPerFeed_def)
  then show ?thesis by (auto simp: fetch_calls_def split_def comp_def)
qed

theorem per_feed_budget_witness:
  "fetch_calls addDefaultFeeds (Some ''hacker'') 10 = [(''hackernews'', 5)] \<and>
   \<lceil>real 10 / real (length addDefaultFeeds)\<rceil> = 5 \<and>
   length (candidates addDefaultFeeds (Some ''hacker'')) = 1"
proof -
  have c: "fetch_calls addDefaultFeeds (Some ''hacker'') 10 = [(''hackernews'', 5)]"
    by code_simp
  have l: "length (candidates addDefaultFeeds (Some ''hacker'')) = 1" by code_simp
  have "\<forall>(feedId, n) \<in> set (fetch_calls addDefaultFeeds (Some ''hacker'') 10).
          int n = \<lceil>real 10 / real (length addDefaultFeeds)\<rceil>"
    using per_feed_budget[of addDefaultFeeds "Some ''hacker''" 10] by blast
  then have "int 5 = \<lceil>real 10 / real (length addDefaultFeeds)\<rceil>" unfolding c by simp
  then show ?thesis using c l by simp
qed


section \<open>The category resolver: properties\<close>

lemma str_includes_refl: "str_includes s s"
  by (cases s) (simp_all add: startsWith_def)

lemma set_insert_by: "set (insert_by cmp x ys) = insert x (set ys)"
  by (induction ys) auto

lemma set_array_sort: "set (array_sort cmp xs) = set xs"
  by (induction xs) (auto simp: set_insert_by)



lemma set_collect_categories:
  "set (fold (\<lambda>(feedId, feed) cs.
               if truthy (category feed) then set_add (the (category feed)) cs else cs) reg acc) =
   set acc \<union> {c. c \<noteq> [] \<and> (\<exists>(feedId, feed) \<in> set reg. category feed = Some c)}"
proof (induction reg arbitrary: acc)
  case Nil
  then show ?case by simp
next
  case (Cons e reg)
  obtain feedId feed where e: "e = (feedId, feed)" by (cases e)
  show ?case
  proof (cases "truthy (category feed)")
    case True
    then obtain c where c: "category feed = Some c" "c \<noteq> []"
      by (auto simp: truthy_def split: option.splits)
    then show ?thesis using Cons.IH[of "set_add c acc"] True e
      by (auto simp: set_add_def)
  next
    case False
    then have "\<And>c. category feed = Some c \<Longrightarrow> c = []"
      by (auto simp: truthy_def)
    then show ?thesis using Cons.IH[of acc] False e by auto
  qed
qed

lemma set_getCategories:
  "set (getCategories reg) =
   {c. c \<noteq> [] \<and> (\<exists>(feedId, feed) \<in> set reg. category feed = Some c)}"
  by (simp add: getCategories_def set_array_sort set_collect_categories)

text \<open>
  The order of \<^verbatim>\<open>sort()\<close> is a strict total order on strings, and the registered
  categories are strictly sorted in it.
\<close>

lemma code_unit_inj: "code_unit x = code_unit y \<longleftrightarrow> x = y"
  by (simp add: code_unit_def)

lemma str_less_irrefl: "\<not> str_less a a"
  by (induction a) auto

lemma str_less_trans: "str_less a b \<Longrightarrow> str_less b c \<Longrightarrow> str_less a c"
proof (induction a b arbitrary: c rule: str_less.induct)
  case 1
  then show ?case by simp
next
  case (2 y ys)
  then show ?case by (cases c) auto
next
  case (3 x xs)
  then show ?case by simp
next
  case (4 x xs y ys)
  then show ?case by (cases c) (auto simp: code_unit_inj)
qed

lemma str_less_total: "a \<noteq> b \<Longrightarrow> str_less a b \<or> str_less b a"
proof (induction a b rule: str_less.induct)
  case (4 x xs y ys)
  then show ?case by (auto simp: code_unit_inj)
qed auto

lemma str_le_trans:
  assumes "\<not> str_less b a" and "\<not> str_less c b"
  shows "\<not> str_less c a"
proof
  assume ca: "str_less c a"
  show False
  proof (cases "a = b")
    case True
    then show ?thesis using ca assms(2) by simp
  next
    case False
    then have "str_less a b" using assms(1) str_less_total by blast
    then have "str_less c b" using ca str_less_trans by blast
    then show ?thesis using assms(2) by simp
  qed
qed

lemma default_order: "sort_order default_compare a b \<le> 0 \<longleftrightarrow> \<not> str_less b a"
  using str_less_irrefl str_less_trans
  by (auto simp: sort_order_def default_compare_def)

lemma sorted_insert_by_default:
  "sorted_wrt (\<lambda>a b. \<not> str_less b a) ys \<Longrightarrow>
   sorted_wrt (\<lambda>a b. \<not> str_less b a) (insert_by default_compare x ys)"
proof (induction ys)
  case Nil
  then show ?case by simp
next
  case (Cons y ys)
  show ?case
  proof (cases "sort_order default_compare x y \<le> 0")
    case True
    then have xy: "\<not> str_less y x" by (simp add: default_order)
    have "\<not> str_less z x" if "z \<in> set ys" for z
    proof -
      have "\<not> str_less z y" using Cons.prems that by simp
      then show ?thesis using xy str_le_trans by blast
    qed
    then show ?thesis using True xy Cons.prems by simp
  next
    case False
    then have "str_less y x" by (simp add: default_order)
    then have "\<not> str_less x y" using str_less_irrefl str_less_trans by blast
    moreover have "sorted_wrt (\<lambda>a b. \<not> str_less b a) (insert_by default_compare x ys)"
      using Cons by simp
    ultimately show ?thesis using False Cons.prems by (auto simp: set_insert_by)
  qed
qed

lemma sorted_array_sort_default:
  "sorted_wrt (\<lambda>a b. \<not> str_less b a) (array_sort default_compare xs)"
  by (induction xs) (simp_all add: sorted_insert_by_default)

lemma distinct_insert_by:
  "distinct (insert_by cmp x ys) \<longleftrightarrow> x \<notin> set ys \<and> distinct ys"
  by (induction ys) (auto simp: set_insert_by)

lemma distinct_array_sort: "distinct xs \<Longrightarrow> distinct (array_sort cmp xs)"
  by (induction xs) (simp_all add: distinct_insert_by set_array_sort)

lemma distinct_collect_categories:
  "distinct acc \<Longrightarrow>
   distinct (fold (\<lambda>(feedId, feed) cs.
               if truthy (category feed) then set_add (the (category feed)) cs else cs) reg acc)"
proof (induction reg arbitrary: acc)
  case Nil
  then show ?case by simp
next
  case (Cons e reg)
  obtain feedId feed where e: "e = (feedId, feed)" by (cases e)
  have "distinct (set_add c acc)" for c using Cons.prems by (simp add: set_add_def)
  then show ?case using Cons e by simp
qed

lemma distinct_getCategories: "distinct (getCategories reg)"
  by (simp add: getCategories_def distinct_array_sort distinct_collect_categories)

lemma strictly_sorted:
  "distinct xs \<Longrightarrow> sorted_wrt (\<lambda>a b. \<not> str_less b a) xs \<Longrightarrow> sorted_wrt str_less xs"
proof (induction xs)
  case Nil
  then show ?case by simp
next
  case (Cons x xs)
  have "str_less x y" if "y \<in> set xs" for y
  proof -
    have "x \<noteq> y" and "\<not> str_less y x" using Cons.prems that by auto
    then show ?thesis using str_less_total by blast
  qed
  then show ?case using Cons by simp
qed

lemma sorted_getCategories: "sorted_wrt str_less (getCategories reg)"
  using distinct_getCategories[of reg] sorted_array_sort_default
  by (simp add: strictly_sorted getCategories_def)

text \<open>On a strictly sorted list, \<^const>\<open>find\<close> returns the least element that satisfies the test.\<close>

lemma find_least:
  "sorted_wrt R xs \<Longrightarrow> find P xs = Some x \<Longrightarrow> y \<in> set xs \<Longrightarrow> P y \<Longrightarrow> y = x \<or> R x y"
  by (induction xs) (auto split: if_splits)

lemma find_of_list_ex: "list_ex P xs \<Longrightarrow> \<exists>x. find P xs = Some x"
  by (induction xs) auto

lemma find_no_list_ex: "\<not> list_ex P xs \<Longrightarrow> find P xs = None"
  by (induction xs) auto

lemma topic_find:
  "find (\<lambda>c. str_includes (toLowerCase c) topic \<or> toLowerCase c = topic) cs =
   find (\<lambda>c. str_includes (toLowerCase c) topic) cs"
proof -
  have "(\<lambda>c. str_includes (toLowerCase c) topic \<or> toLowerCase c = topic) =
        (\<lambda>c. str_includes (toLowerCase c) topic)"
    using str_includes_refl by auto
  then show ?thesis by simp
qed

lemma keyword_loop_miss:
  "list_all (\<lambda>e. \<not> topic_hit cs k e) tbl \<Longrightarrow> keyword_loop cs k tbl = None"
proof (induction tbl)
  case Nil
  then show ?case by simp
next
  case (Cons e tbl)
  obtain topic terms where e: "e = (topic, terms)" by (cases e)
  have "\<not> topic_hit cs k (topic, terms)" using Cons.prems e by simp
  then have "\<not> list_ex (\<lambda>term. str_includes k term) terms \<or>
             find (\<lambda>c. str_includes (toLowerCase c) topic) cs = None"
    by (auto simp: topic_hit_def find_no_list_ex)
  then show ?case using Cons e by (auto simp: topic_find)
qed

lemma keyword_loop_hit:
  assumes "topic_hit cs k e"
  shows "keyword_loop cs k (e # post) = find (\<lambda>c. str_includes (toLowerCase c) (fst e)) cs"
proof -
  obtain topic terms where e: "e = (topic, terms)" by (cases e)
  have t: "list_ex (\<lambda>term. str_includes k term) terms"
    and c: "list_ex (\<lambda>c. str_includes (toLowerCase c) topic) cs"
    using assms e by (simp_all add: topic_hit_def)
  obtain x where "find (\<lambda>c. str_includes (toLowerCase c) topic) cs = Some x"
    using find_of_list_ex[OF c] by blast
  then show ?thesis using t e by (simp add: topic_find)
qed

lemma keyword_loop_first:
  "list_all (\<lambda>e. \<not> topic_hit cs k e) pre \<Longrightarrow> topic_hit cs k e \<Longrightarrow>
   keyword_loop cs k (pre @ e # post) = find (\<lambda>c. str_includes (toLowerCase c) (fst e)) cs"
proof (induction pre)
  case Nil
  then show ?case using keyword_loop_hit by simp
next
  case (Cons p pre)
  obtain topic terms where p: "p = (topic, terms)" by (cases p)
  have "\<not> topic_hit cs k (topic, terms)" using Cons.prems p by simp
  then have "\<not> list_ex (\<lambda>term. str_includes k term) terms \<or>
             find (\<lambda>c. str_includes (toLowerCase c) topic) cs = None"
    by (auto simp: topic_hit_def find_no_list_ex)
  then show ?case using Cons p by (auto simp: topic_find)
qed

text \<open>
  C5, as the specification states it, fails on the code in its second layer. The code
  tests whether the first token of the \<^emph>\<open>category\<close> is a substring of the keyword, not
  whether the first token of the keyword is a substring of the category. With the
  categories \<^verbatim>\<open>Cooking\<close>, \<^verbatim>\<open>Daily Tech\<close>, \<^verbatim>\<open>Tech\<close> and \<^verbatim>\<open>Tech News\<close>, the keyword
  \<^verbatim>\<open>best cooking\<close> resolves to \<^verbatim>\<open>Cooking\<close> where the layers of the specification give
  none, and \<^verbatim>\<open>technology trends\<close> resolves to \<^verbatim>\<open>Tech\<close> in the second layer where the
  specification reaches the synonym table and gives \<^verbatim>\<open>Daily Tech\<close>.
\<close>

theorem resolver_counterexample:
  "getCategoryByKeyword sample_registry ''best cooking'' = Some ''Cooking'' \<and>
   resolve_spec sample_registry ''best cooking'' = None \<and>
   getCategoryByKeyword sample_registry ''technology trends'' = Some ''Tech'' \<and>
   resolve_spec sample_registry ''technology trends'' = Some ''Daily Tech''"
  by code_simp

text \<open>
  C5, amended. The registered categories \<open>cs\<close> are the distinct non-empty category labels
  of the registry, strictly sorted in the order of \<^verbatim>\<open>sort()\<close> (strings compared by code
  units); \<open>k\<close> is the keyword in lower case. The first layer that hits decides, and
  within a layer the first category of \<open>cs\<close>, that is the least in that order:
  (1) a category equal to \<open>k\<close> without regard to case; (2) a category of which \<open>k\<close> is a
  substring, or whose own first space-delimited token is a substring of \<open>k\<close>; (3) for
  the first entry of the synonym table one of whose terms is a substring of \<open>k\<close> and
  whose topic is a substring of some category, the first category that holds the topic;
  (4) otherwise none.
\<close>

theorem resolver_layers:
  assumes "k = toLowerCase keyword" and "cs = getCategories reg"
  shows "set cs = {c. c \<noteq> [] \<and> (\<exists>(feedId, feed) \<in> set reg. category feed = Some c)} \<and>
    sorted_wrt str_less cs \<and>
    (list_ex (exact_match k) cs \<longrightarrow>
       getCategoryByKeyword reg keyword = find (exact_match k) cs) \<and>
    (\<not> list_ex (exact_match k) cs \<and> list_ex (partial_match k) cs \<longrightarrow>
       getCategoryByKeyword reg keyword = find (partial_match k) cs) \<and>
    (\<not> list_ex (exact_match k) cs \<and> \<not> list_ex (partial_match k) cs \<and>
     keywordMap = pre @ e # post \<and> list_all (\<lambda>e'. \<not> topic_hit cs k e') pre \<and> topic_hit cs k e \<longrightarrow>
       getCategoryByKeyword reg keyword = find (\<lambda>c. str_includes (toLowerCase c) (fst e)) cs) \<and>
    (\<not> list_ex (exact_match k) cs \<and> \<not> list_ex (partial_match k) cs \<and>
     list_all (\<lambda>e'. \<not> topic_hit cs k e') keywordMap \<longrightarrow>
       getCategoryByKeyword reg keyword = None)"
proof -
  have ex: "(\<lambda>c. toLowerCase c = k) = exact_match k"
    by (auto simp: exact_match_def)
  have pa: "(\<lambda>c. str_includes (toLowerCase c) k \<or> str_includes k (first_token (toLowerCase c))) =
            partial_match k"
    by (auto simp: partial_match_def)
  have unf: "getCategoryByKeyword reg keyword =
     (case find (exact_match k) cs of Some c \<Rightarrow> Some c
      | None \<Rightarrow> (case find (partial_match k) cs of Some c \<Rightarrow> Some c
                  | None \<Rightarrow> keyword_loop cs k keywordMap))"
    unfolding getCategoryByKeyword_def Let_def assms[symmetric] ex pa ..
  have 1: "list_ex (exact_match k) cs \<Longrightarrow>
           getCategoryByKeyword reg keyword = find (exact_match k) cs"
    using find_of_list_ex[of "exact_match k" cs] unf by auto
  have 2: "\<not> list_ex (exact_match k) cs \<Longrightarrow> list_ex (partial_match k) cs \<Longrightarrow>
           getCategoryByKeyword reg keyword = find (partial_match k) cs"
    using find_of_list_ex[of "partial_match k" cs] find_no_list_ex[of "exact_match k" cs] unf
    by auto
  have 3: "\<not> list_ex (exact_match k) cs \<Longrightarrow> \<not> list_ex (partial_match k) cs \<Longrightarrow>
           getCategoryByKeyword reg keyword = keyword_loop cs k keywordMap"
    using find_no_list_ex[of "partial_match k" cs] find_no_list_ex[of "exact_match k" cs] unf
    by auto
  have 4: "\<not> list_ex (exact_match k) cs \<and> \<not> list_ex (partial_match k) cs \<and>
     keywordMap = pre @ e # post \<and> list_all (\<lambda>e'. \<not> topic_hit cs k e') pre \<and> topic_hit cs k e \<longrightarrow>
       getCategoryByKeyword reg keyword = find (\<lambda>c. str_includes (toLowerCase c) (fst e)) cs"
    using 3 keyword_loop_first[of cs k pre e post] by auto
  have 5: "\<not> list_ex (exact_match k) cs \<and> \<not> list_ex (partial_match k) cs \<and>
     list_all (\<lambda>e'. \<not> topic_hit cs k e') keywordMap \<longrightarrow>
       getCategoryByKeyword reg keyword = None"
    using 3 keyword_loop_miss[of cs k keywordMap] by auto
  have 0: "set cs = {c. c \<noteq> [] \<and> (\<exists>(feedId, feed) \<in> set reg. category feed = Some c)}"
    using set_getCategories[of reg] assms(2) by simp
  have 6: "sorted_wrt str_less cs"
    using sorted_getCategories[of reg] assms(2) by simp
  show ?thesis using 0 6 1 2 4 5 by blast
qed

theorem resolver_layers_witness:
  "getCategories sample_registry = [''Cooking'', ''Daily Tech'', ''Tech'', ''Tech News''] \<and>
   sorted_wrt str_less (getCategories sample_registry) \<and>
   getCategoryByKeyword sample_registry ''Tech News'' = Some ''Tech News'' \<and>
   getCategoryByKeyword sample_registry ''technology trends'' = Some ''Tech'' \<and>
   getCategoryByKeyword sample_registry ''software'' = Some ''Daily Tech'' \<and>
   getCategoryByKeyword sample_registry ''xyzzy'' = None"
proof -
  define cs where "cs = getCategories sample_registry"
  have k1: "''tech news'' = toLowerCase ''Tech News''"
    and k2: "''technology trends'' = toLowerCase ''technology trends''"
    and k3: "''software'' = toLowerCase ''software''"
    and k4: "''xyzzy'' = toLowerCase ''xyzzy''"
    by code_simp+
  have e1: "list_ex (exact_match ''tech news'') cs"
    and f1: "find (exact_match ''tech news'') cs = Some ''Tech News''"
    unfolding cs_def by code_simp+
  have e2: "\<not> list_ex (exact_match ''technology trends'') cs"
    and p2: "list_ex (partial_match ''technology trends'') cs"
    and f2: "find (partial_match ''technology trends'') cs = Some ''Tech''"
    unfolding cs_def by code_simp+
  have e3: "\<not> list_ex (exact_match ''software'') cs"
    and p3: "\<not> list_ex (partial_match ''software'') cs"
    and t3: "keywordMap = [] @ hd keywordMap # tl keywordMap"
    and n3: "list_all (\<lambda>e'. \<not> topic_hit cs ''software'' e') []"
    and h3: "topic_hit cs ''software'' (hd keywordMap)"
    and f3: "find (\<lambda>c. str_includes (toLowerCase c) (fst (hd keywordMap))) cs = Some ''Daily Tech''"
    unfolding cs_def by code_simp+
  have e4: "\<not> list_ex (exact_match ''xyzzy'') cs"
    and p4: "\<not> list_ex (partial_match ''xyzzy'') cs"
    and n4: "list_all (\<lambda>e'. \<not> topic_hit cs ''xyzzy'' e') keywordMap"
    unfolding cs_def by code_simp+
  have r1: "getCategoryByKeyword sample_registry ''Tech News'' = Some ''Tech News''"
    using resolver_layers[OF k1 cs_def] e1 f1 by simp
  have r2: "getCategoryByKeyword sample_registry ''technology trends'' = Some ''Tech''"
    using resolver_layers[OF k2 cs_def] e2 p2 f2 by simp
  have r3: "getCategoryByKeyword sample_registry ''software'' = Some ''Daily Tech''"
    using resolver_layers[OF k3 cs_def, of "[]" "hd keywordMap" "tl keywordMap"] e3 p3 t3 n3 h3 f3
    by simp
  have r4: "getCategoryByKeyword sample_registry ''xyzzy'' = None"
    using resolver_layers[OF k4 cs_def] e4 p4 n4 by simp
  have l: "getCategories sample_registry = [''Cooking'', ''Daily Tech'', ''Tech'', ''Tech News'']"
    by code_simp
  have o: "sorted_wrt str_less (getCategories sample_registry)"
    using resolver_layers[OF k1 cs_def] unfolding cs_def by blast
  show ?thesis using l o r1 r2 r3 r4 by blast
qed


section \<open>The candidate feeds: properties\<close>

text \<open>
  C6, as the specification states it, fails on the code: no test asks whether the
  category is contained in the filter. The feed below has the category \<^verbatim>\<open>Tech\<close>, which
  the filter \<^verbatim>\<open>tech news\<close> contains, and is no candidate.
\<close>

theorem candidates_counterexample:
  "(''b-example'', feed_b) \<in> set sample_registry \<and>
   toLowerCase ''tech news'' = ''tech news'' \<and>
   toLowerCase (the (category feed_b)) = ''tech'' \<and>
   str_includes ''tech news'' ''tech'' \<and>
   selected_spec (Some ''tech news'') feed_b \<and>
   (''b-example'', feed_b) \<notin> set (candidates sample_registry (Some ''tech news''))"
  by code_simp

text \<open>
  C6, amended: with no filter (absent or empty) every registered feed is a candidate.
  With a filter, a registered feed is a candidate if and only if its category is
  non-empty and, without regard to case, contains the filter (equality included), or
  its title, without regard to case, contains the filter.
\<close>

theorem candidates_iff:
  assumes "\<not> truthy none" and "truthy cat"
  shows "candidates reg none = reg \<and>
         ((feedId, feed) \<in> set (candidates reg cat) \<longleftrightarrow>
            (feedId, feed) \<in> set reg \<and>
            ((truthy (category feed) \<and>
                str_includes (toLowerCase (the (category feed))) (toLowerCase (the cat))) \<or>
             str_includes (toLowerCase (title feed)) (toLowerCase (the cat))))"
proof -
  have f: "toLowerCase (the cat) \<noteq> []"
    using assms(2) by (auto simp: truthy_def toLowerCase_def split: option.splits)
  have a: "candidates reg none = reg"
    using assms(1) by (simp add: candidates_def selected_def split_def)
  have t: "title feed = [] \<Longrightarrow> \<not> str_includes (toLowerCase (title feed)) (toLowerCase (the cat))"
    using f by (simp add: toLowerCase_def)
  have "selected cat feed \<longleftrightarrow>
          (truthy (category feed) \<and>
             str_includes (toLowerCase (the (category feed))) (toLowerCase (the cat))) \<or>
          str_includes (toLowerCase (title feed)) (toLowerCase (the cat))"
    using assms(2) t by (auto simp: selected_def str_includes_refl)
  then show ?thesis using a by (auto simp: candidates_def)
qed

theorem candidates_iff_witness:
  "candidates sample_registry None = sample_registry \<and>
   candidates sample_registry (Some []) = sample_registry \<and>
   (''b-example'', feed_b) \<in> set (candidates sample_registry (Some ''TECH'')) \<and>
   (''a-example'', feed_a) \<in> set (candidates sample_registry (Some ''cooking d'')) \<and>
   (''a-example'', feed_a) \<notin> set (candidates sample_registry (Some ''TECH''))"
proof -
  have n1: "\<not> truthy None" and n2: "\<not> truthy (Some [])"
    and t1: "truthy (Some ''TECH'')" and t2: "truthy (Some ''cooking d'')"
    by code_simp+
  have b: "(''b-example'', feed_b) \<in> set sample_registry \<and>
     ((truthy (category feed_b) \<and>
         str_includes (toLowerCase (the (category feed_b))) (toLowerCase (the (Some ''TECH'')))) \<or>
      str_includes (toLowerCase (title feed_b)) (toLowerCase (the (Some ''TECH''))))"
    by code_simp
  have a: "(''a-example'', feed_a) \<in> set sample_registry \<and>
     ((truthy (category feed_a) \<and>
         str_includes (toLowerCase (the (category feed_a))) (toLowerCase (the (Some ''cooking d'')))) \<or>
      str_includes (toLowerCase (title feed_a)) (toLowerCase (the (Some ''cooking d''))))"
    by code_simp
  have na: "\<not> ((''a-example'', feed_a) \<in> set sample_registry \<and>
     ((truthy (category feed_a) \<and>
         str_includes (toLowerCase (the (category feed_a))) (toLowerCase (the (Some ''TECH'')))) \<or>
      str_includes (toLowerCase (title feed_a)) (toLowerCase (the (Some ''TECH'')))))"
    by code_simp
  have c1: "candidates sample_registry None = sample_registry"
    using candidates_iff[OF n1 t1] by blast
  have c2: "candidates sample_registry (Some []) = sample_registry"
    using candidates_iff[OF n2 t1] by blast
  have c3: "(''b-example'', feed_b) \<in> set (candidates sample_registry (Some ''TECH''))"
    using candidates_iff[OF n1 t1, of sample_registry "''b-example''" feed_b] b by blast
  have c4: "(''a-example'', feed_a) \<in> set (candidates sample_registry (Some ''cooking d''))"
    using candidates_iff[OF n1 t2, of sample_registry "''a-example''" feed_a] a by blast
  have c5: "(''a-example'', feed_a) \<notin> set (candidates sample_registry (Some ''TECH''))"
    using candidates_iff[OF n1 t1, of sample_registry "''a-example''" feed_a] na by blast
  show ?thesis using c1 c2 c3 c4 c5 by blast
qed


section \<open>The merged result: order and size\<close>



lemma by_date_order:
  assumes "timestamp N a = Some ta" "timestamp N b = Some tb"
  shows "sort_order (by_date N) a b \<le> 0 \<longleftrightarrow> tb \<le> ta"
    and "older N a b \<longleftrightarrow> ta < tb"
  using assms by (simp_all add: sort_order_def by_date_def older_def)

lemma newest_first_insert:
  assumes "timestamp N x \<noteq> None" "\<forall>y \<in> set ys. timestamp N y \<noteq> None"
    and "sorted_wrt (\<lambda>a b. \<not> older N a b) ys"
  shows "sorted_wrt (\<lambda>a b. \<not> older N a b) (insert_by (by_date N) x ys)"
  using assms(2,3)
proof (induction ys)
  case Nil
  then show ?case by simp
next
  case (Cons y ys)
  obtain tx where tx: "timestamp N x = Some tx" using assms(1) by auto
  obtain ty where ty: "timestamp N y = Some ty" using Cons.prems(1) by auto
  show ?case
  proof (cases "sort_order (by_date N) x y \<le> 0")
    case True
    then have xy: "ty \<le> tx" using by_date_order(1)[OF tx ty] by simp
    have "\<not> older N x z" if z: "z \<in> set (y # ys)" for z
    proof -
      obtain tz where tz: "timestamp N z = Some tz" using Cons.prems(1) z by auto
      have "\<not> older N y z \<or> z = y" using Cons.prems(2) z by auto
      then have "tz \<le> ty" using by_date_order(2)[OF ty tz] ty tz by auto
      then show ?thesis using by_date_order(2)[OF tx tz] xy by simp
    qed
    then show ?thesis using True Cons.prems(2) by simp
  next
    case False
    then have yx: "tx < ty" using by_date_order(1)[OF tx ty] by simp
    then have "\<not> older N y x" using by_date_order(2)[OF ty tx] by simp
    moreover have "sorted_wrt (\<lambda>a b. \<not> older N a b) (insert_by (by_date N) x ys)"
      using Cons by simp
    ultimately show ?thesis using False Cons.prems(2) by (auto simp: set_insert_by)
  qed
qed

lemma newest_first_array_sort:
  "\<forall>x \<in> set xs. timestamp N x \<noteq> None \<Longrightarrow>
   sorted_wrt (\<lambda>a b. \<not> older N a b) (array_sort (by_date N) xs)"
proof (induction xs)
  case Nil
  then show ?case by simp
next
  case (Cons x xs)
  then show ?case
    using newest_first_insert[of N x "array_sort (by_date N) xs"]
    by (simp add: set_array_sort)
qed

lemma sorted_wrt_take_prefix: "sorted_wrt R xs \<Longrightarrow> sorted_wrt R (take n xs)"
  by (metis append_take_drop_id sorted_wrt_append)

text \<open>
  C2, as the specification states it, fails on the code. A publication date that does
  not parse as a date has the time \<^verbatim>\<open>NaN\<close>; the comparator then returns \<^verbatim>\<open>NaN\<close>, which
  the sort reads as equal, and a later item can stay behind an earlier one. The feed
  below has the items of 1 January, of no date, and of 2 January, in this order, and
  they are returned in this order.
\<close>

theorem fetch_all_order_counterexample:
  "map (timestamp sample_net)
     (items_of (getAllFeedItems sample_net [(''a-example'', feed_a)] None 10)) =
     [Some 1704067200000, None, Some 1704153600000] \<and>
   \<not> newest_first sample_net
     (items_of (getAllFeedItems sample_net [(''a-example'', feed_a)] None 10))"
  by code_simp

text \<open>
  C2, amended: for every registry and every limit, \<^verbatim>\<open>getAllFeedItems\<close> without a filter
  returns at most \<open>limit\<close> items, whatever the timestamps are. When the effective
  timestamp of every fetched item parses as a date, every returned item has such a
  timestamp and the items are in non-increasing order of it. The effective timestamp is
  \<^verbatim>\<open>isoDate || pubDate\<close>.
\<close>

theorem fetch_all_bounded_sorted:
  "\<exists>result. getAllFeedItems N reg None limit = Inr result \<and> length result \<le> limit \<and>
     (list_all (\<lambda>a. timestamp N a \<noteq> None) (allItems N reg None limit) \<longrightarrow>
        list_all (\<lambda>a. timestamp N a \<noteq> None) result \<and> newest_first N result)"
proof -
  define sorted_items where "sorted_items = array_sort (by_date N) (allItems N reg None limit)"
  have r: "getAllFeedItems N reg None limit = Inr (take limit sorted_items)"
    by (simp add: getAllFeedItems_def sorted_items_def)
  have b: "length (take limit sorted_items) \<le> limit" by simp
  have s: "list_all (\<lambda>a. timestamp N a \<noteq> None) (take limit sorted_items) \<and>
           newest_first N (take limit sorted_items)"
    if a: "list_all (\<lambda>a. timestamp N a \<noteq> None) (allItems N reg None limit)"
  proof -
    have v: "\<forall>x \<in> set (allItems N reg None limit). timestamp N x \<noteq> None"
      using a by (simp add: list_all_iff)
    then have "sorted_wrt (\<lambda>a b. \<not> older N a b) sorted_items"
      unfolding sorted_items_def by (rule newest_first_array_sort)
    then have o: "newest_first N (take limit sorted_items)"
      unfolding newest_first_def by (rule sorted_wrt_take_prefix)
    have "set (take limit sorted_items) \<subseteq> set (allItems N reg None limit)"
      using set_take_subset[of limit sorted_items] by (simp add: sorted_items_def set_array_sort)
    then have "list_all (\<lambda>a. timestamp N a \<noteq> None) (take limit sorted_items)"
      using v by (auto simp: list_all_iff)
    then show ?thesis using o by simp
  qed
  show ?thesis using r b s by blast
qed

theorem fetch_all_bounded_sorted_witness:
  "list_all (\<lambda>a. timestamp sample_net a \<noteq> None) (allItems sample_net sample_three None 10) \<and>
   map item_title (items_of (getAllFeedItems sample_net sample_three None 10)) = [''c1'', ''b1''] \<and>
   length (items_of (getAllFeedItems sample_net sample_three None 10)) \<le> 10 \<and>
   list_all (\<lambda>a. timestamp sample_net a \<noteq> None)
     (items_of (getAllFeedItems sample_net sample_three None 10)) \<and>
   newest_first sample_net (items_of (getAllFeedItems sample_net sample_three None 10)) \<and>
   \<not> list_all (\<lambda>a. timestamp sample_net a \<noteq> None)
       (allItems sample_net [(''a-example'', feed_a)] None 10) \<and>
   length (items_of (getAllFeedItems sample_net [(''a-example'', feed_a)] None 10)) \<le> 10"
proof -
  have h: "list_all (\<lambda>a. timestamp sample_net a \<noteq> None) (allItems sample_net sample_three None 10)"
    by code_simp
  have t: "map item_title (items_of (getAllFeedItems sample_net sample_three None 10)) = [''c1'', ''b1'']"
    by code_simp
  have n: "\<not> list_all (\<lambda>a. timestamp sample_net a \<noteq> None)
              (allItems sample_net [(''a-example'', feed_a)] None 10)"
    by code_simp
  obtain result where r: "getAllFeedItems sample_net sample_three None 10 = Inr result"
    and "length result \<le> 10"
    and "list_all (\<lambda>a. timestamp sample_net a \<noteq> None) result \<and> newest_first sample_net result"
    using fetch_all_bounded_sorted[of sample_net sample_three 10] h by blast
  then have A: "length (items_of (getAllFeedItems sample_net sample_three None 10)) \<le> 10 \<and>
      list_all (\<lambda>a. timestamp sample_net a \<noteq> None)
        (items_of (getAllFeedItems sample_net sample_three None 10)) \<and>
      newest_first sample_net (items_of (getAllFeedItems sample_net sample_three None 10))"
    by (simp add: items_of_def)
  obtain result2 where "getAllFeedItems sample_net [(''a-example'', feed_a)] None 10 = Inr result2"
    and "length result2 \<le> 10"
    using fetch_all_bounded_sorted[of sample_net "[(''a-example'', feed_a)]" 10] by blast
  then have B: "length (items_of (getAllFeedItems sample_net [(''a-example'', feed_a)] None 10)) \<le> 10"
    by (simp add: items_of_def)
  show ?thesis using h t n A B by blast
qed


section \<open>Partial failure\<close>









section \<open>Loading a source: properties\<close>

lemma keys_feeds_set_all:
  "fst ` set (feeds_set_all es reg) = fst ` set reg \<union> fst ` set es"
proof (induction es arbitrary: reg)
  case Nil
  then show ?case by (simp add: feeds_set_all_def)
next
  case (Cons e es)
  obtain k v where e: "e = (k, v)" by (cases e)
  have "feeds_set_all (e # es) reg = feeds_set_all es (feeds_set k v reg)"
    by (simp add: feeds_set_all_def e)
  then show ?case using Cons.IH[of "feeds_set k v reg"] e
    by (auto simp: feeds_set_def dom_update)
qed

text \<open>
  The keys of a registry stay distinct, so that its length is the \<^verbatim>\<open>size\<close> of the map.
\<close>

lemma distinct_feeds_set_all:
  "distinct (map fst reg) \<Longrightarrow> distinct (map fst (feeds_set_all es reg))"
proof (induction es arbitrary: reg)
  case Nil
  then show ?case by (simp add: feeds_set_all_def)
next
  case (Cons e es)
  obtain k v where e: "e = (k, v)" by (cases e)
  have "distinct (map fst (feeds_set k v reg))"
    using Cons.prems by (simp add: feeds_set_def distinct_update)
  then have "distinct (map fst (feeds_set_all es (feeds_set k v reg)))" by (rule Cons.IH)
  then show ?case by (simp add: feeds_set_all_def e)
qed

lemma set_feeds_set: "set (feeds_set k v reg) \<subseteq> insert (k, v) (set reg)"
  unfolding feeds_set_def by (induction reg) auto

lemma set_feeds_set_all: "set (feeds_set_all es reg) \<subseteq> set reg \<union> set es"
proof (induction es arbitrary: reg)
  case Nil
  then show ?case by (simp add: feeds_set_all_def)
next
  case (Cons e es)
  obtain k v where e: "e = (k, v)" by (cases e)
  have "feeds_set_all (e # es) reg = feeds_set_all es (feeds_set k v reg)"
    by (simp add: feeds_set_all_def e)
  then show ?case using Cons.IH[of "feeds_set k v reg"] set_feeds_set[of k v reg] e
    by auto
qed

lemma processOutline_keys:
  "(k, f) \<in> set (processOutline H item cat) \<Longrightarrow> k = createFeedId H (url f)"
  by (induction H item cat rule: processOutline.induct) (auto split: if_splits)

lemma processOutlines_keys:
  "\<forall>(k, f) \<in> set (processOutlines H os cat). k = createFeedId H (url f)"
  by (auto simp: processOutlines_def dest: processOutline_keys)

lemma feeds_set_all_Cons:
  "feeds_set_all ((k, v) # es) reg = feeds_set_all es (feeds_set k v reg)"
  by (simp add: feeds_set_all_def)

lemma json_forEach_entries:
  "json_forEach H entries reg = (e, reg') \<Longrightarrow>
   \<exists>es. reg' = feeds_set_all es reg \<and> (\<forall>(k, f) \<in> set es. k = createFeedId H (url f))"
proof (induction H entries reg rule: json_forEach.induct)
  case (1 H feeds)
  then have "reg' = feeds_set_all [] feeds" by (simp add: feeds_set_all_def)
  then show ?case by force
next
  case (2 H feed rest feeds)
  define k where "k = createFeedId H (url feed)"
  define v where "v = \<lparr>title = title feed, url = url feed, htmlUrl = htmlUrl feed,
                       category = category feed\<rparr>"
  have "json_forEach H rest (feeds_set k v feeds) = (e, reg')"
    using "2.prems" by (simp add: k_def v_def)
  then obtain es where es: "reg' = feeds_set_all es (feeds_set k v feeds)"
    and d: "\<forall>(k, f) \<in> set es. k = createFeedId H (url f)"
    using "2.IH" unfolding k_def v_def by blast
  have "reg' = feeds_set_all ((k, v) # es) feeds" using es by (simp add: feeds_set_all_Cons)
  moreover have "\<forall>(k, f) \<in> set ((k, v) # es). k = createFeedId H (url f)"
    using d by (simp add: k_def v_def)
  ultimately show ?case by blast
next
  case (3 H rest feeds)
  then have "reg' = feeds_set_all [] feeds" by (simp add: feeds_set_all_def)
  then show ?case by force
qed

lemma json_forEach_error:
  "json_forEach H entries reg = (Some e, reg') \<Longrightarrow> e = TypeError"
  by (induction H entries reg rule: json_forEach.induct) auto

lemma load_entries:
  assumes "loadFeedsFromFile H F p reg = (e, reg')"
  shows "\<exists>es. reg' = feeds_set_all es reg \<and> (\<forall>(k, f) \<in> set es. k = createFeedId H (url f))"
proof -
  have same: "reg' = reg \<Longrightarrow> ?thesis"
  proof -
    assume "reg' = reg"
    then have "reg' = feeds_set_all [] reg" by (simp add: feeds_set_all_def)
    then show ?thesis by force
  qed
  show ?thesis
  proof (cases "readFileSync F p")
    case None
    then show ?thesis using assms same by (simp add: loadFeedsFromFile_def)
  next
    case (Some fileContent)
    consider (opml) "parseOPMLFeeds H F fileContent reg = (e, reg')"
      | (json) "parseJSONFeeds H F fileContent reg = (e, reg')"
      | (other) "reg' = reg"
      using assms Some by (auto simp: loadFeedsFromFile_def Let_def split: if_splits)
    then show ?thesis
    proof cases
      case opml
      show ?thesis
      proof (cases "XML_parse F fileContent")
        case (BodyOutline os)
        then have "reg' = feeds_set_all (processOutlines H os []) reg"
          using opml by (simp add: parseOPMLFeeds_def)
        then show ?thesis using processOutlines_keys[of H os "[]"] by blast
      qed (use opml same in \<open>simp_all add: parseOPMLFeeds_def\<close>)
    next
      case json
      show ?thesis
      proof (cases "JSON_parse F fileContent")
        case None
        then show ?thesis using json same by (simp add: parseJSONFeeds_def)
      next
        case (Some entries)
        then have "json_forEach H entries reg = (e, reg')"
          using json by (simp add: parseJSONFeeds_def)
        then show ?thesis by (rule json_forEach_entries)
      qed
    next
      case other
      then show ?thesis by (rule same)
    qed
  qed
qed

text \<open>
  A load only ever calls \<^verbatim>\<open>this.feeds.set\<close> on the map it finds: every identifier that
  was registered before a load is registered after it, whether the load succeeds or not.
\<close>

lemma load_keeps_keys:
  assumes "loadFeedsFromFile H F p reg = (e, reg')"
  shows "fst ` set reg \<subseteq> fst ` set reg'"
proof -
  obtain es where "reg' = feeds_set_all es reg"
    using load_entries[OF assms] by blast
  then show ?thesis by (simp add: keys_feeds_set_all)
qed

text \<open>
  A load that fails for another reason than an element without \<^verbatim>\<open>url\<close> (the file is
  missing or unreadable, its extension is not supported, or a parser rejects it) leaves
  the registry as it was.
\<close>

lemma failed_load_keeps_registry:
  assumes "loadFeedsFromFile H F p reg = (Some e, reg')" and "e \<noteq> TypeError"
  shows "reg' = reg"
proof (cases "readFileSync F p")
  case None
  then show ?thesis using assms(1) by (simp add: loadFeedsFromFile_def)
next
  case (Some fileContent)
  consider (opml) "parseOPMLFeeds H F fileContent reg = (Some e, reg')"
    | (json) "parseJSONFeeds H F fileContent reg = (Some e, reg')"
    | (other) "reg' = reg"
    using assms(1) Some by (auto simp: loadFeedsFromFile_def Let_def split: if_splits)
  then show ?thesis
  proof cases
    case opml
    then show ?thesis by (auto simp: parseOPMLFeeds_def split: parsed_xml.splits)
  next
    case json
    then show ?thesis using assms(2) json_forEach_error
      by (auto simp: parseJSONFeeds_def split: option.splits)
  next
    case other
    then show ?thesis .
  qed
qed

lemma failed_set_keeps_registry:
  assumes "fst (setFeedsPath H F p s) = Some e" and "e \<noteq> TypeError"
  shows "feeds (snd (setFeedsPath H F p s)) = feeds s"
proof (cases "existsSync F p")
  case False
  then show ?thesis by (simp add: setFeedsPath_def)
next
  case True
  obtain e' reg' where l: "loadFeedsFromFile H F p (feeds s) = (e', reg')"
    by (cases "loadFeedsFromFile H F p (feeds s)")
  then have "e' = Some e" using assms(1) True by (simp add: setFeedsPath_def)
  then have "reg' = feeds s" using failed_load_keeps_registry l assms(2) by blast
  then show ?thesis using True l by (simp add: setFeedsPath_def)
qed

text \<open>
  C1 on the code: the registry holds the feed of \<^verbatim>\<open>a.example\<close>, and the source
  \<^verbatim>\<open>/feeds.json\<close> holds one entry, the feed of \<^verbatim>\<open>b.example\<close>. The set-source operation
  succeeds, and the registry then holds both feeds: the new entry has been merged into
  the old contents. Neither loader clears the map; only \<^verbatim>\<open>addDefaultFeeds\<close> does.
  And the source \<^verbatim>\<open>/partial.json\<close>, whose second element has no \<^verbatim>\<open>url\<close>, makes the
  operation fail after the first element has been stored: the registry is not as it was.
\<close>

theorem setFeedsPath_merges:
  "fst (setFeedsPath sample_hostname sample_files ''/feeds.json''
          \<lparr>feeds = [(''a-example'', feed_a)], feedsPath = None\<rparr>) = None \<and>
   JSON_parse sample_files (the (readFileSync sample_files ''/feeds.json'')) =
     Some [Entry feed_b] \<and>
   feeds (snd (setFeedsPath sample_hostname sample_files ''/feeds.json''
          \<lparr>feeds = [(''a-example'', feed_a)], feedsPath = None\<rparr>)) =
     [(''a-example'', feed_a), (''b-example'', feed_b)] \<and>
   fst (setFeedsPath sample_hostname sample_files ''/partial.json''
          \<lparr>feeds = [(''a-example'', feed_a)], feedsPath = None\<rparr>) = Some TypeError \<and>
   feeds (snd (setFeedsPath sample_hostname sample_files ''/partial.json''
          \<lparr>feeds = [(''a-example'', feed_a)], feedsPath = None\<rparr>)) =
     [(''a-example'', feed_a), (''b-example'', feed_b)]"
  by code_simp


section \<open>The listed identifiers\<close>

text \<open>
  Both file loaders store a feed under the identifier derived from its URL, which is the
  identifier that the listing prints.
\<close>

lemma file_load_keys_derived:
  assumes "loadFeedsFromFile H F p reg = (e, reg')"
    and "\<forall>(k, f) \<in> set reg. k = listed_id H f"
  shows "\<forall>(k, f) \<in> set reg'. k = listed_id H f"
proof -
  obtain es where r: "reg' = feeds_set_all es reg"
    and es: "\<forall>(k, f) \<in> set es. k = createFeedId H (url f)"
    using load_entries[OF assms(1)] by blast
  show ?thesis using set_feeds_set_all[of es reg] r es assms(2)
    by (auto simp: listed_id_def)
qed

text \<open>
  C10 on the code: when the startup load fails (here the sample file does not exist),
  the two built-in feeds are stored under the keys \<^verbatim>\<open>hackernews\<close> and \<^verbatim>\<open>techcrunch\<close>,
  while the listing prints the identifiers derived from their URLs,
  \<^verbatim>\<open>news-ycombinator-com\<close> and \<^verbatim>\<open>techcrunch-com\<close>. Neither is a key of the registry, and
  fetching a single feed by a listed identifier fails with feed-not-found.
\<close>

theorem default_feeds_listed_ids:
  "feeds (initializeFeeds sample_hostname sample_files None ''/sample_feeds.opml'') = addDefaultFeeds \<and>
   map fst addDefaultFeeds = [''hackernews'', ''techcrunch''] \<and>
   map (\<lambda>(feedId, feed). listed_id sample_hostname feed) addDefaultFeeds =
     [''news-ycombinator-com'', ''techcrunch-com''] \<and>
   getFeedsList sample_hostname sample_localeCompare addDefaultFeeds =
     Some (''Available RSS Feeds:'' @ [CHR 0x0A, CHR 0x0A] @ ''Tech News:'' @ [CHR 0x0A] @
           ''- Hacker News (use: rss --news-ycombinator-com)'' @ [CHR 0x0A] @
           ''- TechCrunch (use: rss --techcrunch-com)'' @ [CHR 0x0A, CHR 0x0A]) \<and>
   getFeedItems sample_net addDefaultFeeds ''news-ycombinator-com'' 10 =
     Inl (FeedNotFound ''news-ycombinator-com'') \<and>
   getFeedItems sample_net addDefaultFeeds ''techcrunch-com'' 10 =
     Inl (FeedNotFound ''techcrunch-com'')"
  by code_simp

end
